theory Spec2Isabelle
  imports Main "HOL-Library.Word" "HOL-Library.Sublist" "HOL-Library.Log_Nat"
begin

section \<open>Mask binarisation (fix\_masks\_to\_binary.py)\<close>

text \<open>
  A grayscale mask is a two-dimensional array of unsigned 8-bit samples.  It is
  modelled as a list of rows of 8-bit words, so that arithmetic on samples wraps
  around the way \<^verbatim>\<open>numpy.uint8\<close> does.
\<close>

type_synonym u8 = "8 word"
type_synonym buffer = "u8 list list"

text \<open>\<^verbatim>\<open>np.unique(arr)\<close>: the sorted distinct samples of the flattened array.\<close>

definition np_unique :: "buffer \<Rightarrow> u8 list" where
  "np_unique arr = sort (remdups (concat arr))"

text \<open>\<^verbatim>\<open>u.tolist()\<close>: the samples as Python integers.\<close>

definition tolist :: "u8 list \<Rightarrow> int list" where
  "tolist u = map uint u"

text \<open>
  \<^verbatim>\<open>binarize_array(arr, thresh=127)\<close>.  The parameter \<^verbatim>\<open>thresh\<close> is kept although
  the body never reads it.  \<^verbatim>\<open>arr * 255\<close> is a \<^verbatim>\<open>uint8\<close> product (it wraps), and
  \<^verbatim>\<open>np.where(arr > 0, 255, 0).astype(np.uint8)\<close> is computed sample by sample.
\<close>

definition binarize_array :: "buffer \<Rightarrow> int \<Rightarrow> buffer" where
  "binarize_array arr thresh =
     (let u = np_unique arr in
      if set (tolist u) \<subseteq> {0, 255} then arr
      else if set (tolist u) \<subseteq> {0, 1} then map (map (\<lambda>x. x * 255)) arr
      else map (map (\<lambda>x. if x > 0 then 255 else 0)) arr)"

text \<open>The set of distinct sample values present in a buffer.\<close>

definition distinct_values :: "buffer \<Rightarrow> u8 set" where
  "distinct_values arr = set (concat arr)"

text \<open>The shape of a buffer: its number of rows and the length of each row.\<close>

definition shape :: "buffer \<Rightarrow> nat \<times> nat list" where
  "shape arr = (length arr, map length arr)"

section \<open>Paths and the file system\<close>

text \<open>
  A path is the list of its components below the root.  The three \<^verbatim>\<open>pathlib\<close>
  properties the scripts read are \<^verbatim>\<open>name\<close> (the last component), \<^verbatim>\<open>suffix\<close> and
  \<^verbatim>\<open>stem\<close>: with \<^verbatim>\<open>i = name.rfind('.')\<close>, the suffix is \<^verbatim>\<open>name[i:]\<close> and the stem
  \<^verbatim>\<open>name[:i]\<close> when \<^verbatim>\<open>0 < i < len(name) - 1\<close>; otherwise the suffix is empty and
  the stem is the whole name (the rule of \<^verbatim>\<open>pathlib\<close> up to Python 3.12).
  Characters are bytes, and \<^verbatim>\<open>str.lower\<close> is modelled on the ASCII letters.
\<close>

type_synonym path = "string list"

definition path_name :: "path \<Rightarrow> string" where
  "path_name p = (if p = [] then [] else last p)"

fun rfind_from :: "char \<Rightarrow> string \<Rightarrow> int \<Rightarrow> int \<Rightarrow> int" where
  "rfind_from c [] i found = found"
| "rfind_from c (x # xs) i found = rfind_from c xs (i + 1) (if x = c then i else found)"

text \<open>\<^verbatim>\<open>s.rfind(c)\<close>: the index of the last occurrence of \<open>c\<close>, or \<open>-1\<close>.\<close>

definition rfind :: "string \<Rightarrow> char \<Rightarrow> int" where
  "rfind s c = rfind_from c s 0 (- 1)"

definition path_suffix :: "path \<Rightarrow> string" where
  "path_suffix p =
     (let name = path_name p; i = rfind name (CHR ''.'') in
      if 0 < i \<and> i < int (length name) - 1 then drop (nat i) name else [])"

definition path_stem :: "path \<Rightarrow> string" where
  "path_stem p =
     (let name = path_name p; i = rfind name (CHR ''.'') in
      if 0 < i \<and> i < int (length name) - 1 then take (nat i) name else name)"

definition lower_char :: "char \<Rightarrow> char" where
  "lower_char c =
     (case map_of (zip ''ABCDEFGHIJKLMNOPQRSTUVWXYZ'' ''abcdefghijklmnopqrstuvwxyz'') c of
        Some d \<Rightarrow> d
      | None \<Rightarrow> c)"

definition lower :: "string \<Rightarrow> string" where
  "lower s = map lower_char s"

definition startswith :: "string \<Rightarrow> string \<Rightarrow> bool" where
  "startswith s pre = prefix pre s"

definition endswith :: "string \<Rightarrow> string \<Rightarrow> bool" where
  "endswith s suf = suffix suf s"


text \<open>
  The file system holds its entries in enumeration order (the order in which
  \<^verbatim>\<open>iterdir\<close> and \<^verbatim>\<open>rglob\<close> yield them, which the operating system chooses), and
  the paths whose removal the operating system refuses.
\<close>

datatype kind = RegFile | Directory

record filesystem =
  entries :: "(path \<times> kind) list"
  locked :: "path list"

datatype py_error =
  SystemExit | FileNotFoundError | IsADirectoryError | NotADirectoryError | PermissionError
  | ZeroDivisionError | ValueError | TypeError | OverflowError | LibraryError

definition is_file :: "filesystem \<Rightarrow> path \<Rightarrow> bool" where
  "is_file fs p = ((p, RegFile) \<in> set (entries fs))"

definition is_dir :: "filesystem \<Rightarrow> path \<Rightarrow> bool" where
  "is_dir fs p = ((p, Directory) \<in> set (entries fs))"


text \<open>\<^verbatim>\<open>folder.rglob("*")\<close>: everything below the folder, at any depth.\<close>

definition rglob :: "filesystem \<Rightarrow> path \<Rightarrow> path list" where
  "rglob fs folder = map fst (filter (\<lambda>e. strict_prefix folder (fst e)) (entries fs))"

text \<open>
  \<^verbatim>\<open>folder.iterdir()\<close>: the direct children of the folder; it raises when the
  folder is not a directory.
\<close>

definition children :: "filesystem \<Rightarrow> path \<Rightarrow> path list" where
  "children fs folder =
     map fst (filter (\<lambda>e. fst e \<noteq> [] \<and> butlast (fst e) = folder) (entries fs))"

definition iterdir :: "filesystem \<Rightarrow> path \<Rightarrow> py_error + path list" where
  "iterdir fs folder =
     (if is_dir fs folder then Inr (children fs folder)
      else if is_file fs folder then Inl NotADirectoryError
      else Inl FileNotFoundError)"

text \<open>
  \<^verbatim>\<open>p.unlink()\<close> removes a regular file; it raises when the path is missing, is a
  directory, or may not be removed.
\<close>

definition unlink :: "filesystem \<Rightarrow> path \<Rightarrow> py_error + filesystem" where
  "unlink fs p =
     (if is_file fs p then
        (if p \<in> set (locked fs) then Inl PermissionError
         else Inr (fs\<lparr>entries := filter (\<lambda>e. e \<noteq> (p, RegFile)) (entries fs)\<rparr>))
      else if is_dir fs p then Inl IsADirectoryError
      else Inl FileNotFoundError)"

section \<open>Pruning unpaired files (prune\_unpaired\_pairs.py)\<close>

definition IMG_EXTS :: "string list" where
  "IMG_EXTS = [''.jpg'', ''.jpeg'', ''.png'', ''.bmp'', ''.tif'', ''.tiff'', ''.webp'']"

definition MASK_SUFFIX :: string where
  "MASK_SUFFIX = ''_mask''"

definition iter_media_files :: "filesystem \<Rightarrow> path \<Rightarrow> string list \<Rightarrow> path list" where
  "iter_media_files fs folder exts =
     filter (\<lambda>p. is_file fs p \<and> lower (path_suffix p) \<in> set exts
                 \<and> \<not> startswith (path_name p) ''.'')
       (rglob fs folder)"

text \<open>\<^verbatim>\<open>stem[: -len(MASK_SUFFIX)]\<close>\<close>

definition strip_mask_suffix :: "string \<Rightarrow> string" where
  "strip_mask_suffix stem = take (length stem - length MASK_SUFFIX) stem"

text \<open>The loop of \<^verbatim>\<open>compute_bases\<close> that collects the mask bases.\<close>

fun mask_bases_loop :: "path list \<Rightarrow> string set \<Rightarrow> string set" where
  "mask_bases_loop [] mask_bases = mask_bases"
| "mask_bases_loop (m # ms) mask_bases =
     (let stem = path_stem m in
      if endswith stem MASK_SUFFIX
      then mask_bases_loop ms (insert (strip_mask_suffix stem) mask_bases)
      else mask_bases_loop ms mask_bases)"

definition compute_bases ::
  "filesystem \<Rightarrow> path \<Rightarrow> path \<Rightarrow> string set \<times> string set \<times> path list \<times> path list" where
  "compute_bases fs img_dir mask_dir =
     (let images = iter_media_files fs img_dir IMG_EXTS;
          masks = iter_media_files fs mask_dir IMG_EXTS;
          image_bases = set (map path_stem images);
          mask_bases = mask_bases_loop masks {}
      in (image_bases, mask_bases, images, masks))"

text \<open>The loop of \<^verbatim>\<open>main\<close> that collects the unpaired masks.\<close>

fun unpaired_masks_loop :: "string set \<Rightarrow> path list \<Rightarrow> path list \<Rightarrow> path list" where
  "unpaired_masks_loop image_bases [] acc = acc"
| "unpaired_masks_loop image_bases (m # ms) acc =
     (let stem = path_stem m in
      if \<not> endswith stem MASK_SUFFIX
      then unpaired_masks_loop image_bases ms (acc @ [m])
      else
        let base = strip_mask_suffix stem in
        if base \<notin> image_bases
        then unpaired_masks_loop image_bases ms (acc @ [m])
        else unpaired_masks_loop image_bases ms acc)"

text \<open>
  The deletion loop: each \<^verbatim>\<open>unlink\<close> is tried on its own; a failure is reported
  and the loop goes on.  The state is the file system, the count of deleted files
  and the paths warned about.
\<close>

fun delete_loop ::
  "filesystem \<Rightarrow> path list \<Rightarrow> nat \<Rightarrow> path list \<Rightarrow> filesystem \<times> nat \<times> path list" where
  "delete_loop fs [] deleted warned = (fs, deleted, warned)"
| "delete_loop fs (p # ps) deleted warned =
     (case unlink fs p of
        Inr fs' \<Rightarrow> delete_loop fs' ps (deleted + 1) warned
      | Inl e \<Rightarrow> delete_loop fs ps deleted (warned @ [p]))"

text \<open>
  What \<^verbatim>\<open>main\<close> prints: the four counts of the check (the unpaired counts are the
  lengths of the two lists), the two lists, and, unless the run is a dry run, the
  number of deleted files and the warnings.  \<open>prune_main\<close> is the \<^verbatim>\<open>main\<close> of this
  script, with the two directories and the \<^verbatim>\<open>--dry-run\<close> flag as arguments; it
  returns the report and the file system it leaves.
\<close>

record prune_report =
  images_found :: nat
  masks_found :: nat
  unpaired_images :: "path list"
  unpaired_masks :: "path list"
  deleted_files :: "nat option"
  could_not_delete :: "path list"

definition prune_main ::
  "filesystem \<Rightarrow> path \<Rightarrow> path \<Rightarrow> bool \<Rightarrow> py_error + (prune_report \<times> filesystem)" where
  "prune_main fs img_dir mask_dir dry_run =
     (if \<not> is_dir fs img_dir \<or> \<not> is_dir fs mask_dir then Inl SystemExit
      else
        let (image_bases, mask_bases, images, masks) = compute_bases fs img_dir mask_dir;
            unp_images = filter (\<lambda>p. path_stem p \<notin> mask_bases) images;
            unp_masks = unpaired_masks_loop image_bases masks [];
            check = \<lparr>images_found = length images, masks_found = length masks,
                     unpaired_images = unp_images, unpaired_masks = unp_masks,
                     deleted_files = None, could_not_delete = []\<rparr>
        in if dry_run then Inr (check, fs)
           else
             let (fs', deleted, warned) = delete_loop fs (unp_images @ unp_masks) 0 []
             in Inr (check\<lparr>deleted_files := Some deleted, could_not_delete := warned\<rparr>, fs'))"

text \<open>File systems used as concrete inputs of the prune pass.\<close>

definition prune_scenario_fs :: filesystem where
  "prune_scenario_fs =
     \<lparr>entries =
        [([''out''], Directory), ([''out'', ''img''], Directory), ([''out'', ''mask''], Directory),
         ([''out'', ''img'', ''C1_100H0001.jpg''], RegFile),
         ([''out'', ''img'', ''C1_100H0002.jpg''], RegFile),
         ([''out'', ''mask'', ''C1_100H0001_mask.png''], RegFile)],
      locked = []\<rparr>"

definition prune_locked_fs :: filesystem where
  "prune_locked_fs = prune_scenario_fs\<lparr>locked := [[''out'', ''img'', ''C1_100H0002.jpg'']]\<rparr>"

definition prune_shared_fs :: filesystem where
  "prune_shared_fs =
     \<lparr>entries =
        [([''data''], Directory),
         ([''data'', ''a.png''], RegFile),
         ([''data'', ''a_mask.png''], RegFile)],
      locked = []\<rparr>"

definition prune_badname_fs :: filesystem where
  "prune_badname_fs =
     \<lparr>entries =
        [([''out''], Directory), ([''out'', ''img''], Directory), ([''out'', ''mask''], Directory),
         ([''out'', ''img'', ''a.jpg''], RegFile),
         ([''out'', ''mask'', ''a.png''], RegFile),
         ([''out'', ''mask'', ''a_mask.png''], RegFile)],
      locked = []\<rparr>"

section \<open>Gathering the splits (gather\_images\_and\_masks.py)\<close>

text \<open>This script has its own extension list, without \<^verbatim>\<open>.webp\<close>.\<close>

definition gather_IMG_EXTS :: "string list" where
  "gather_IMG_EXTS = [''.jpg'', ''.jpeg'', ''.png'', ''.bmp'', ''.tif'', ''.tiff'']"

definition find_dir_exact_or_prefix ::
  "filesystem \<Rightarrow> path \<Rightarrow> string \<Rightarrow> string \<Rightarrow> py_error + path option" where
  "find_dir_exact_or_prefix fs base exact pre =
     (let exact_dir = base @ [exact] in
      if is_dir fs exact_dir then Inr (Some exact_dir)
      else
        case iterdir fs base of
          Inl e \<Rightarrow> Inl e
        | Inr ps \<Rightarrow>
            Inr (find (\<lambda>p. is_dir fs p \<and> startswith (lower (path_name p)) (lower pre)) ps))"



text \<open>
  \<^verbatim>\<open>s.split(sep)[-1]\<close>: the text after the last separator found by a scan from the
  left, or the whole string when there is none.  \<open>skip\<close> counts the characters of a
  separator still to be passed over.
\<close>

fun split_last :: "string \<Rightarrow> nat \<Rightarrow> string \<Rightarrow> string \<Rightarrow> string" where
  "split_last sep skip acc [] = acc"
| "split_last sep skip acc (c # cs) =
     (if 0 < skip then split_last sep (skip - 1) acc cs
      else if prefix sep (c # cs) then split_last sep (length sep - 1) [] cs
      else split_last sep 0 (acc @ [c]) cs)"

text \<open>
  The images and masks a split contributes: \<^verbatim>\<open>rglob\<close> filtered by \<^verbatim>\<open>is_file\<close> and the
  extension list, with no test of a leading dot.
\<close>

definition gather_media_files :: "filesystem \<Rightarrow> path \<Rightarrow> path list" where
  "gather_media_files fs folder =
     filter (\<lambda>p. is_file fs p \<and> lower (path_suffix p) \<in> set gather_IMG_EXTS) (rglob fs folder)"

text \<open>
  \<^verbatim>\<open>process_split\<close> returns the two counts and the two lists; the model also returns
  what it prints before the copy loop and the file system.  The head of the function
  (the split tag, the two folder lookups and the early return) is embedded as it is
  written; the rest of the body, which enumerates and copies the files of the two
  folders found, is the parameter \<open>copy_loop\<close>, applied to the split tag and
  the two folders.
\<close>

type_synonym split_counts = "nat \<times> nat \<times> string list \<times> string list"

definition process_split ::
  "(filesystem \<Rightarrow> string \<Rightarrow> path \<Rightarrow> path \<Rightarrow> py_error + (string list \<times> split_counts \<times> filesystem)) \<Rightarrow>
   filesystem \<Rightarrow> path \<Rightarrow> py_error + (string list \<times> split_counts \<times> filesystem)" where
  "process_split copy_loop fs data_dir =
     (let split_tag = split_last ''data_'' 0 [] (path_name data_dir) in
      case find_dir_exact_or_prefix fs data_dir (''images_'' @ split_tag) ''images_'' of
        Inl e \<Rightarrow> Inl e
      | Inr images_dir \<Rightarrow>
         (case find_dir_exact_or_prefix fs data_dir (''masks_'' @ split_tag) ''masks_'' of
            Inl e \<Rightarrow> Inl e
          | Inr masks_dir \<Rightarrow>
             (case (images_dir, masks_dir) of
                (Some i, Some m) \<Rightarrow> copy_loop fs split_tag i m
              | _ \<Rightarrow>
                Inr ([''[WARN] Skipping '' @ path_name data_dir
                       @ '': missing images_/masks_ folder(s).''],
                     (0, 0, [], []), fs))))"

text \<open>
  The fallback as the specification words it, a longest-common-prefix scan: among
  the subdirectories of the split, the first one whose name shares the longest prefix
  with the expected name, provided it shares any.
\<close>

fun common_prefix_length :: "string \<Rightarrow> string \<Rightarrow> nat" where
  "common_prefix_length (x # xs) (y # ys) = (if x = y then Suc (common_prefix_length xs ys) else 0)"
| "common_prefix_length _ _ = 0"

fun longest_common_prefix_pick :: "string \<Rightarrow> path list \<Rightarrow> path option \<Rightarrow> path option" where
  "longest_common_prefix_pick exact [] best = best"
| "longest_common_prefix_pick exact (p # ps) best =
     (let n = common_prefix_length exact (path_name p);
          better = (case best of None \<Rightarrow> 0 < n
                    | Some b \<Rightarrow> common_prefix_length exact (path_name b) < n)
      in longest_common_prefix_pick exact ps (if better then Some p else best))"

definition spec_find_dir_longest_prefix :: "filesystem \<Rightarrow> path \<Rightarrow> string \<Rightarrow> path option" where
  "spec_find_dir_longest_prefix fs base exact =
     (let exact_dir = base @ [exact] in
      if is_dir fs exact_dir then Some exact_dir
      else longest_common_prefix_pick exact (filter (is_dir fs) (children fs base)) None)"

text \<open>Concrete inputs of the merge pass.\<close>

definition split_two_candidates_fs :: filesystem where
  "split_two_candidates_fs =
     \<lparr>entries =
        [([''root''], Directory), ([''root'', ''data_C1''], Directory),
         ([''root'', ''data_C1'', ''images_C2''], Directory),
         ([''root'', ''data_C1'', ''images_C1_v2''], Directory),
         ([''root'', ''data_C1'', ''masks_C1''], Directory)],
      locked = []\<rparr>"

definition split_no_masks_fs :: filesystem where
  "split_no_masks_fs =
     \<lparr>entries =
        [([''root''], Directory), ([''root'', ''data_C1''], Directory),
         ([''root'', ''data_C1'', ''Images_c1_old''], Directory),
         ([''root'', ''data_C1'', ''notes.txt''], RegFile)],
      locked = []\<rparr>"

definition masks_fs :: filesystem where
  "masks_fs =
     \<lparr>entries =
        [([''m''], Directory),
         ([''m'', ''a_mask.png''], RegFile),
         ([''m'', ''B_extra_MASK.PNG''], RegFile),
         ([''m'', ''c_1_mask.png''], RegFile),
         ([''m'', ''c_2_mask.png''], RegFile),
         ([''m'', ''readme.txt''], RegFile)],
      locked = []\<rparr>"

definition media_fs :: filesystem where
  "media_fs =
     \<lparr>entries =
        [([''d''], Directory),
         ([''d'', ''x.webp''], RegFile),
         ([''d'', ''.y.png''], RegFile),
         ([''d'', ''z.PNG''], RegFile)],
      locked = []\<rparr>"

text \<open>
  The enumeration of the binariser's \<^verbatim>\<open>main\<close> and of the resizer's
  \<^verbatim>\<open>process_dir\<close> (through \<^verbatim>\<open>is_image_file\<close>).
\<close>

definition binarizer_files :: "filesystem \<Rightarrow> path \<Rightarrow> path list" where
  "binarizer_files fs mask_dir =
     filter (\<lambda>p. lower (path_suffix p) \<in> set IMG_EXTS \<and> is_file fs p) (rglob fs mask_dir)"

definition is_image_file :: "filesystem \<Rightarrow> path \<Rightarrow> bool" where
  "is_image_file fs p =
     (is_file fs p \<and> lower (path_suffix p) \<in> set IMG_EXTS \<and> \<not> startswith (path_name p) ''.'')"

section \<open>Resizing (resize\_dataset\_256.py)\<close>

subsection \<open>Python floats\<close>

text \<open>
  \<^verbatim>\<open>resize_keep_aspect\<close> computes with Python floats (IEEE 754 binary64).  A float is
  modelled by the rational number it denotes, and every operation returns the exact
  result rounded to 53 significant bits, ties to the even significand, as binary64
  does.  The exponent range is not bounded in the model: it agrees with binary64 as
  long as no result leaves the normal range, which holds for all image and target
  sizes below \<open>2 ^ 1000\<close> (the imaging library's sizes are below \<open>2 ^ 31\<close>).
\<close>

text \<open>Rounding to the nearest integer, ties to even: Python's \<^verbatim>\<open>round(x)\<close> on a float.\<close>

definition round_half_even :: "rat \<Rightarrow> int" where
  "round_half_even x =
     (let f = \<lfloor>x\<rfloor>; d = x - of_int f in
      if d < 1 / 2 then f
      else if 1 / 2 < d then f + 1
      else if even f then f else f + 1)"

text \<open>For \<open>x > 0\<close>, the exponent \<open>e\<close> with \<open>2 ^ e \<le> x < 2 ^ (e + 1)\<close>.\<close>

definition float_exponent :: "rat \<Rightarrow> int" where
  "float_exponent x = (if 1 \<le> x then bitlen \<lfloor>x\<rfloor> - 1 else - bitlen (\<lceil>1 / x\<rceil> - 1))"

text \<open>The float nearest to a rational.\<close>

definition fl :: "rat \<Rightarrow> rat" where
  "fl x =
     (if x = 0 then 0
      else
        let e = float_exponent \<bar>x\<bar> - 52
        in sgn x * of_int (round_half_even (\<bar>x\<bar> / 2 powi e)) * 2 powi e)"

text \<open>\<^verbatim>\<open>a / b\<close> on integers: the correctly rounded quotient; it raises on a zero divisor.\<close>

definition py_truediv :: "int \<Rightarrow> int \<Rightarrow> py_error + rat" where
  "py_truediv a b = (if b = 0 then Inl ZeroDivisionError else Inr (fl (of_int a / of_int b)))"

text \<open>\<^verbatim>\<open>n * x\<close> for an integer and a float: the integer is converted, then multiplied.\<close>

definition py_float :: "int \<Rightarrow> rat" where
  "py_float n = fl (of_int n)"

definition py_mul :: "int \<Rightarrow> rat \<Rightarrow> rat" where
  "py_mul n x = fl (py_float n * x)"

subsection \<open>Images\<close>

text \<open>
  An image of the imaging library: its mode, its size \<open>(width, height)\<close> and its
  pixels.  The pixel function of an image is read only at coordinates within its
  size.  A pixel of a canvas is either the background ink, a list with one value per
  channel, or a pixel pasted from another image.
\<close>

datatype resample = NEAREST | BILINEAR

datatype 'p cell = Background "int list" | Pasted 'p

record 'p pil_image =
  im_mode :: string
  im_size :: "int \<times> int"
  im_pixel :: "int \<Rightarrow> int \<Rightarrow> 'p"

text \<open>
  The imaging library is not part of the program.  Its three operations are modelled
  from its documented behaviour, errors included.  Whether the library has the
  memory for an image, and whether it can resample an image of a given mode, is not
  decided by the program: it is the environment \<open>env\<close>.
\<close>

record pil_env =
  resizes :: "string \<Rightarrow> int \<times> int \<Rightarrow> resample \<Rightarrow> bool"
  allocates :: "string \<Rightarrow> int \<times> int \<Rightarrow> bool"

text \<open>The number of channels of the library's modes.\<close>

definition pil_bands :: "string \<Rightarrow> nat option" where
  "pil_bands m =
     (if m \<in> {''1'', ''L'', ''P'', ''I'', ''F'', ''I;16'', ''I;16L'', ''I;16B'', ''I;16N''} then Some 1
      else if m \<in> {''LA'', ''PA'', ''La''} then Some 2
      else if m \<in> {''RGB'', ''YCbCr'', ''LAB'', ''HSV''} then Some 3
      else if m \<in> {''RGBA'', ''CMYK'', ''RGBX'', ''RGBa''} then Some 4
      else None)"

text \<open>
  The two fill values \<^verbatim>\<open>resize_keep_aspect\<close> passes to \<^verbatim>\<open>Image.new\<close>: the integer \<^verbatim>\<open>0\<close>
  and the tuple \<^verbatim>\<open>(0, 0, 0)\<close>.  The library turns the integer into zero in every
  channel.  It takes the tuple as it is in a mode of three channels, completes it
  with the value 255 in a mode of four channels, looks it up in a fresh palette
  (index 0) in mode \<^verbatim>\<open>P\<close>, and raises \<^verbatim>\<open>TypeError\<close> in the other modes of one or
  two channels.
\<close>

datatype fill = FillInt0 | FillTuple000

definition pil_ink :: "string \<Rightarrow> fill \<Rightarrow> py_error + int list" where
  "pil_ink m f =
     (case pil_bands m of
        None \<Rightarrow> Inl ValueError
      | Some n \<Rightarrow>
         (case f of
            FillInt0 \<Rightarrow> Inr (replicate n 0)
          | FillTuple000 \<Rightarrow>
              if n = 3 then Inr [0, 0, 0]
              else if n = 4 then Inr [0, 0, 0, 255]
              else if m = ''P'' then Inr [0]
              else Inl TypeError))"

text \<open>
  \<^verbatim>\<open>im.resize(size, resample)\<close> returns an image of the size asked for, in the mode
  of its input; the pixels the kernel computes are the parameter \<open>resampler\<close>.  It
  raises \<^verbatim>\<open>OverflowError\<close> for a size that does not fit a 32-bit integer and
  \<^verbatim>\<open>ValueError\<close> for a size below 1.
\<close>

definition pil_resize ::
  "pil_env \<Rightarrow> (resample \<Rightarrow> 'p pil_image \<Rightarrow> int \<times> int \<Rightarrow> int \<Rightarrow> int \<Rightarrow> 'p) \<Rightarrow>
   'p pil_image \<Rightarrow> int \<times> int \<Rightarrow> resample \<Rightarrow> py_error + 'p pil_image" where
  "pil_resize env resampler im sz rs =
     (if 2 ^ 31 \<le> fst sz \<or> 2 ^ 31 \<le> snd sz then Inl OverflowError
      else if fst sz < 1 \<or> snd sz < 1 then Inl ValueError
      else if \<not> resizes env (im_mode im) sz rs then Inl LibraryError
      else Inr \<lparr>im_mode = im_mode im, im_size = sz, im_pixel = resampler rs im sz\<rparr>)"

text \<open>
  \<^verbatim>\<open>Image.new(mode, size, color)\<close> raises \<^verbatim>\<open>ValueError\<close> for a negative size,
  \<^verbatim>\<open>OverflowError\<close> for a size that does not fit a 32-bit integer, and the error of
  the ink; otherwise every pixel of the new image is the ink.
\<close>

definition pil_new ::
  "pil_env \<Rightarrow> string \<Rightarrow> int \<times> int \<Rightarrow> fill \<Rightarrow> py_error + 'p cell pil_image" where
  "pil_new env m sz f =
     (if fst sz < 0 \<or> snd sz < 0 then Inl ValueError
      else if 2 ^ 31 \<le> fst sz \<or> 2 ^ 31 \<le> snd sz then Inl OverflowError
      else if \<not> allocates env m sz then Inl LibraryError
      else
        case pil_ink m f of
          Inl e \<Rightarrow> Inl e
        | Inr ink \<Rightarrow> Inr \<lparr>im_mode = m, im_size = sz, im_pixel = (\<lambda>x y. Background ink)\<rparr>)"

text \<open>\<^verbatim>\<open>canvas.paste(src, (left, top))\<close>, for images of one mode.\<close>

definition pil_paste :: "'p cell pil_image \<Rightarrow> 'p pil_image \<Rightarrow> int \<times> int \<Rightarrow> 'p cell pil_image" where
  "pil_paste canvas src box =
     canvas\<lparr>im_pixel :=
       (\<lambda>x y. if fst box \<le> x \<and> x < fst box + fst (im_size src)
                  \<and> snd box \<le> y \<and> y < snd box + snd (im_size src)
               then Pasted (im_pixel src (x - fst box) (y - snd box))
               else im_pixel canvas x y)\<rparr>"

text \<open>The first two statements of \<^verbatim>\<open>resize_keep_aspect\<close>: the scale and the new size.\<close>

definition new_size :: "int \<times> int \<Rightarrow> int \<times> int \<Rightarrow> py_error + int \<times> int" where
  "new_size sz target =
     (let (target_w, target_h) = target; (w, h) = sz in
      case py_truediv target_w w of
        Inl e \<Rightarrow> Inl e
      | Inr sw \<Rightarrow>
         (case py_truediv target_h h of
            Inl e \<Rightarrow> Inl e
          | Inr sh \<Rightarrow>
             (let scale = min sw sh
              in Inr (max 1 (round_half_even (py_mul w scale)),
                      max 1 (round_half_even (py_mul h scale))))))"

text \<open>The mode and the fill of the canvas, as the two branches on \<^verbatim>\<open>is_mask\<close> choose them.\<close>

definition canvas_mode :: "bool \<Rightarrow> string \<Rightarrow> string" where
  "canvas_mode is_mask resized_mode =
     (if is_mask then (if resized_mode = ''L'' then ''L'' else resized_mode)
      else (if resized_mode = ''RGB'' then ''RGB'' else resized_mode))"

definition canvas_fill :: "bool \<Rightarrow> string \<Rightarrow> fill" where
  "canvas_fill is_mask mode =
     (if is_mask then FillInt0
      else if mode \<in> {''L'', ''I;16''} then FillInt0 else FillTuple000)"

definition resize_keep_aspect ::
  "pil_env \<Rightarrow> (resample \<Rightarrow> 'p pil_image \<Rightarrow> int \<times> int \<Rightarrow> int \<Rightarrow> int \<Rightarrow> 'p) \<Rightarrow>
   'p pil_image \<Rightarrow> int \<times> int \<Rightarrow> bool \<Rightarrow> py_error + 'p cell pil_image" where
  "resize_keep_aspect env resampler im target is_mask =
     (let (target_w, target_h) = target in
      case new_size (im_size im) target of
        Inl e \<Rightarrow> Inl e
      | Inr (new_w, new_h) \<Rightarrow>
         (let resample = (if is_mask then NEAREST else BILINEAR) in
          case pil_resize env resampler im (new_w, new_h) resample of
            Inl e \<Rightarrow> Inl e
          | Inr resized \<Rightarrow>
             (let mode = canvas_mode is_mask (im_mode resized);
                  fill = canvas_fill is_mask mode
              in case pil_new env mode (target_w, target_h) fill of
                   Inl e \<Rightarrow> Inl e
                 | Inr canvas \<Rightarrow>
                    (let left = (target_w - new_w) div 2;
                         top = (target_h - new_h) div 2
                     in Inr (pil_paste canvas resized (left, top))))))"

text \<open>Concrete inputs of the resizer: an environment with no limit and three images.\<close>

definition roomy_env :: pil_env where
  "roomy_env = \<lparr>resizes = (\<lambda>m sz rs. True), allocates = (\<lambda>m sz. True)\<rparr>"

definition coordinate_resampler ::
  "resample \<Rightarrow> (int \<times> int) pil_image \<Rightarrow> int \<times> int \<Rightarrow> int \<Rightarrow> int \<Rightarrow> int \<times> int" where
  "coordinate_resampler rs im sz x y = (x, y)"

definition photo_512_384 :: "(int \<times> int) pil_image" where
  "photo_512_384 = \<lparr>im_mode = ''RGB'', im_size = (512, 384), im_pixel = (\<lambda>x y. (x, y))\<rparr>"

definition mask_512_384 :: "(int \<times> int) pil_image" where
  "mask_512_384 = \<lparr>im_mode = ''L'', im_size = (512, 384), im_pixel = (\<lambda>x y. (x, y))\<rparr>"

definition rgba_2_1 :: "(int \<times> int) pil_image" where
  "rgba_2_1 = \<lparr>im_mode = ''RGBA'', im_size = (2, 1), im_pixel = (\<lambda>x y. (x, y))\<rparr>"

definition dot_1_1 :: "(int \<times> int) pil_image" where
  "dot_1_1 = \<lparr>im_mode = ''L'', im_size = (1, 1), im_pixel = (\<lambda>x y. (x, y))\<rparr>"

section \<open>Properties of the binariser\<close>

lemma set_np_unique: "set (np_unique arr) = distinct_values arr"
  by (simp add: np_unique_def distinct_values_def)

lemma uint_u8_255: "uint (x :: u8) = 255 \<longleftrightarrow> x = 255"
proof -
  have "uint (255 :: u8) = 255" by simp
  then show ?thesis by (metis word_uint_eq_iff)
qed

lemma uint_u8_1: "uint (x :: u8) = 1 \<longleftrightarrow> x = 1"
  by (metis uint_1 word_uint_eq_iff)

lemma uint_u8_0: "uint (x :: u8) = 0 \<longleftrightarrow> x = 0"
  by (simp add: uint_0_iff)

lemma already_binary_iff:
  "set (tolist (np_unique arr)) \<subseteq> {0, 255} \<longleftrightarrow> distinct_values arr \<subseteq> {0, 255}"
  unfolding tolist_def set_map set_np_unique
  by (auto simp: uint_u8_255 uint_u8_0 subset_iff image_iff)

lemma zero_one_iff:
  "set (tolist (np_unique arr)) \<subseteq> {0, 1} \<longleftrightarrow> distinct_values arr \<subseteq> {0, 1}"
  unfolding tolist_def set_map set_np_unique
  by (auto simp: uint_u8_1 uint_u8_0 subset_iff image_iff)

lemma binarize_array_cases:
  "binarize_array arr t =
     (if distinct_values arr \<subseteq> {0, 255} then arr
      else if distinct_values arr \<subseteq> {0, 1} then map (map (\<lambda>x. x * 255)) arr
      else map (map (\<lambda>x. if x > 0 then 255 else 0)) arr)"
  by (simp add: binarize_array_def already_binary_iff zero_one_iff Let_def)

lemma collapse_values:
  "distinct_values (map (map (\<lambda>x::u8. if x > 0 then 255 else 0)) arr) \<subseteq> {0, 255}"
  by (auto simp: distinct_values_def)

lemma scale_values:
  "distinct_values arr \<subseteq> {0, 1} \<Longrightarrow>
   distinct_values (map (map (\<lambda>x::u8. x * 255)) arr) \<subseteq> {0, 255}"
  by (auto simp: distinct_values_def)

lemma binarize_array_values: "distinct_values (binarize_array arr t) \<subseteq> {0, 255}"
  using collapse_values[of arr] scale_values[of arr]
  by (simp add: binarize_array_cases)

text \<open>
  Claim C1.  For every buffer, \<open>binarize_array\<close> returns a buffer of the same shape,
  decided on the set of distinct sample values: a buffer whose values lie in
  \<open>{0, 255}\<close> is returned unchanged; otherwise a buffer whose values lie in \<open>{0, 1}\<close>
  has every sample multiplied by 255; otherwise every sample of the output is 0 or
  255, it is 255 exactly where the input sample is positive, and 0 exactly where the
  input sample is 0.
\<close>

theorem binarize_array_three_tier:
  "shape (binarize_array arr t) = shape arr
   \<and> (distinct_values arr \<subseteq> {0, 255} \<longrightarrow> binarize_array arr t = arr)
   \<and> (\<not> distinct_values arr \<subseteq> {0, 255} \<and> distinct_values arr \<subseteq> {0, 1} \<longrightarrow>
        binarize_array arr t = map (map (\<lambda>x. x * 255)) arr)
   \<and> (\<not> distinct_values arr \<subseteq> {0, 255} \<and> \<not> distinct_values arr \<subseteq> {0, 1} \<longrightarrow>
        (\<forall>i < length arr. \<forall>j < length (arr ! i).
           (binarize_array arr t ! i ! j = 255 \<longleftrightarrow> arr ! i ! j > 0)
           \<and> (binarize_array arr t ! i ! j = 0 \<longleftrightarrow> arr ! i ! j = 0)))"
proof -
  have "shape (binarize_array arr t) = shape arr"
    by (simp add: binarize_array_cases shape_def)
  moreover have "\<forall>i < length arr. \<forall>j < length (arr ! i).
      (map (map (\<lambda>x::u8. if x > 0 then 255 else 0)) arr ! i ! j = (255 :: u8) \<longleftrightarrow> arr ! i ! j > 0)
      \<and> (map (map (\<lambda>x::u8. if x > 0 then 255 else 0)) arr ! i ! j = (0 :: u8) \<longleftrightarrow> arr ! i ! j = 0)"
    by (simp add: word_gt_0)
  ultimately show ?thesis
    by (simp add: binarize_array_cases)
qed

theorem binarize_array_three_tier_witness:
  "binarize_array [[0, 128, 255], [7, 0, 1]] 127 = [[0, 255, 255], [255, 0, 255]]
   \<and> binarize_array [[0, 1], [1, 1]] 127 = [[0, 255], [255, 255]]
   \<and> binarize_array [[255, 0], [0, 0]] 127 = [[255, 0], [0, 0]]"
proof -
  let ?a = "[[0, 128, 255], [7, 0, 1]] :: buffer"
  let ?b = "[[0, 1], [1, 1]] :: buffer"
  let ?c = "[[255, 0], [0, 0]] :: buffer"
  have a: "\<not> distinct_values ?a \<subseteq> {0, 255} \<and> \<not> distinct_values ?a \<subseteq> {0, 1}"
    by (simp add: distinct_values_def)
  have b: "\<not> distinct_values ?b \<subseteq> {0, 255} \<and> distinct_values ?b \<subseteq> {0, 1}"
    by (simp add: distinct_values_def)
  have c: "distinct_values ?c \<subseteq> {0, 255}"
    by (simp add: distinct_values_def)
  have "binarize_array ?b 127 = map (map (\<lambda>x. x * 255)) ?b"
    using binarize_array_three_tier[of ?b 127] b by blast
  moreover have "binarize_array ?c 127 = ?c"
    using binarize_array_three_tier[of ?c 127] c by blast
  moreover have "binarize_array ?a 127 = [[0, 255, 255], [255, 0, 255]]"
    by (simp add: binarize_array_cases distinct_values_def)
  ultimately show ?thesis by simp
qed

text \<open>
  Claim C8.  Binarisation is idempotent: binarising the output again returns the
  output.
\<close>

theorem binarize_array_idempotent:
  "binarize_array (binarize_array arr t) t = binarize_array arr t"
  using binarize_array_values[of arr t] by (subst binarize_array_cases) simp

theorem binarize_array_idempotent_witness:
  "binarize_array (binarize_array [[0, 128, 255], [7, 0, 1]] 127) 127 = [[0, 255, 255], [255, 0, 255]]"
proof -
  have "binarize_array [[0, 128, 255], [7, 0, 1]] 127 = [[0, 255, 255], [255, 0, 255]]"
    by (simp add: binarize_array_cases distinct_values_def)
  then show ?thesis
    using binarize_array_idempotent[of "[[0, 128, 255], [7, 0, 1]]" 127] by simp
qed

section \<open>Properties of the prune pass\<close>

lemma mask_bases_loop_eq:
  "mask_bases_loop ms acc =
     acc \<union> strip_mask_suffix ` path_stem ` {m \<in> set ms. endswith (path_stem m) MASK_SUFFIX}"
  by (induction ms arbitrary: acc) (auto simp: Let_def)

lemma unpaired_masks_loop_eq:
  "unpaired_masks_loop I ms acc =
     acc @ filter (\<lambda>m. \<not> endswith (path_stem m) MASK_SUFFIX
                        \<or> strip_mask_suffix (path_stem m) \<notin> I) ms"
  by (induction ms arbitrary: acc) (auto simp: Let_def)

lemma unlink_locked: "unlink fs p = Inr fs' \<Longrightarrow> locked fs' = locked fs"
  by (auto simp: unlink_def split: if_splits)

lemma unlink_entries:
  "unlink fs p = Inr fs' \<Longrightarrow> entries fs' = filter (\<lambda>e. e \<noteq> (p, RegFile)) (entries fs)"
  by (auto simp: unlink_def split: if_splits)

lemma unlink_fails_entries:
  "unlink fs p = Inl e \<Longrightarrow> p \<notin> set (locked fs) \<Longrightarrow> (p, RegFile) \<notin> set (entries fs)"
  by (auto simp: unlink_def is_file_def split: if_splits)

lemma delete_loop_locked: "locked (fst (delete_loop fs ps d w)) = locked fs"
proof (induction ps arbitrary: fs d w)
  case Nil
  then show ?case by simp
next
  case (Cons p ps)
  show ?case
  proof (cases "unlink fs p")
    case (Inl e)
    then show ?thesis using Cons.IH[of fs d "w @ [p]"] by simp
  next
    case (Inr fs')
    then show ?thesis using Cons.IH[of fs' "d + 1" w] unlink_locked[OF Inr] by simp
  qed
qed

lemma delete_loop_entries:
  "entries (fst (delete_loop fs ps d w)) =
     filter (\<lambda>e. \<forall>p \<in> set ps. e = (p, RegFile) \<longrightarrow> p \<in> set (locked fs)) (entries fs)"
proof (induction ps arbitrary: fs d w)
  case Nil
  then show ?case by simp
next
  case (Cons p ps)
  show ?case
  proof (cases "unlink fs p")
    case (Inl e)
    have "filter (\<lambda>e. \<forall>q \<in> set (p # ps). e = (q, RegFile) \<longrightarrow> q \<in> set (locked fs)) (entries fs)
        = filter (\<lambda>e. \<forall>q \<in> set ps. e = (q, RegFile) \<longrightarrow> q \<in> set (locked fs)) (entries fs)"
      using unlink_fails_entries[OF Inl] by (intro filter_cong) auto
    then show ?thesis using Inl Cons.IH[of fs d "w @ [p]"] by simp
  next
    case (Inr fs')
    have p: "p \<notin> set (locked fs)" using Inr by (auto simp: unlink_def split: if_splits)
    have "entries (fst (delete_loop fs (p # ps) d w)) = entries (fst (delete_loop fs' ps (d + 1) w))"
      using Inr by simp
    also have "\<dots> = filter (\<lambda>e. \<forall>q \<in> set ps. e = (q, RegFile) \<longrightarrow> q \<in> set (locked fs)) (entries fs')"
      using Cons.IH[of fs' "d + 1" w] unlink_locked[OF Inr] by simp
    also have "\<dots> = filter (\<lambda>e. \<forall>q \<in> set (p # ps). e = (q, RegFile) \<longrightarrow> q \<in> set (locked fs)) (entries fs)"
      unfolding unlink_entries[OF Inr] filter_filter using p by (intro filter_cong) auto
    finally show ?thesis .
  qed
qed

lemma delete_loop_warned_mono: "length w \<le> length (snd (snd (delete_loop fs ps d w)))"
proof (induction ps arbitrary: fs d w)
  case Nil
  then show ?case by simp
next
  case (Cons p ps)
  show ?case
  proof (cases "unlink fs p")
    case (Inl e)
    then show ?thesis using Cons.IH[of "w @ [p]" fs d] by simp
  next
    case (Inr fs')
    then show ?thesis using Cons.IH[of w fs' "d + 1"] by simp
  qed
qed

lemma delete_loop_no_warning:
  "snd (snd (delete_loop fs ps d w)) = [] \<Longrightarrow>
   entries (fst (delete_loop fs ps d w)) = filter (\<lambda>e. e \<notin> (\<lambda>p. (p, RegFile)) ` set ps) (entries fs)"
proof (induction ps arbitrary: fs d w)
  case Nil
  then show ?case by simp
next
  case (Cons p ps)
  show ?case
  proof (cases "unlink fs p")
    case (Inl e)
    then have "length (w @ [p]) \<le> length (snd (snd (delete_loop fs (p # ps) d w)))"
      using delete_loop_warned_mono[where w="w @ [p]" and fs=fs and ps=ps and d=d] by simp
    then show ?thesis using Cons.prems by simp
  next
    case (Inr fs')
    have "entries (fst (delete_loop fs (p # ps) d w)) = entries (fst (delete_loop fs' ps (d + 1) w))"
      using Inr by simp
    also have "\<dots> = filter (\<lambda>e. e \<notin> (\<lambda>p. (p, RegFile)) ` set ps) (entries fs')"
      using Cons.IH[of fs' "d + 1" w] Cons.prems Inr by simp
    also have "\<dots> = filter (\<lambda>e. e \<notin> (\<lambda>p. (p, RegFile)) ` set (p # ps)) (entries fs)"
      unfolding unlink_entries[OF Inr] filter_filter by (intro filter_cong) auto
    finally show ?thesis .
  qed
qed

lemma iter_media_files_after:
  assumes "entries fs' = filter (\<lambda>e. e \<notin> (\<lambda>p. (p, RegFile)) ` C) (entries fs)"
  shows "iter_media_files fs' d exts = filter (\<lambda>p. p \<notin> C) (iter_media_files fs d exts)"
proof -
  have f: "is_file fs' p \<longleftrightarrow> is_file fs p \<and> p \<notin> C" for p
    by (auto simp: is_file_def assms)
  show ?thesis
    unfolding iter_media_files_def rglob_def assms filter_map filter_filter comp_def f
    by (auto intro!: arg_cong[where f="map fst"] filter_cong)
qed

lemma prune_main_Inr:
  assumes "prune_main fs img_dir mask_dir dry_run = Inr (r, fs')"
  shows "is_dir fs img_dir \<and> is_dir fs mask_dir
    \<and> unpaired_images r = filter (\<lambda>p. path_stem p \<notin> fst (snd (compute_bases fs img_dir mask_dir)))
          (iter_media_files fs img_dir IMG_EXTS)
    \<and> unpaired_masks r = filter (\<lambda>m. \<not> endswith (path_stem m) MASK_SUFFIX
           \<or> strip_mask_suffix (path_stem m) \<notin> fst (compute_bases fs img_dir mask_dir))
          (iter_media_files fs mask_dir IMG_EXTS)
    \<and> (dry_run \<longrightarrow> fs' = fs \<and> deleted_files r = None \<and> could_not_delete r = [])
    \<and> (\<not> dry_run \<longrightarrow> (fs', the (deleted_files r), could_not_delete r)
           = delete_loop fs (unpaired_images r @ unpaired_masks r) 0 [])"
  using assms
  by (auto simp: prune_main_def compute_bases_def Let_def unpaired_masks_loop_eq
      split: if_splits prod.splits)

lemma prune_main_defined:
  assumes "is_dir fs img_dir" "is_dir fs mask_dir"
  shows "\<exists>r fs'. prune_main fs img_dir mask_dir dry_run = Inr (r, fs')"
  using assms by (auto simp: prune_main_def Let_def split: prod.splits)

lemma compute_bases_sets:
  "fst (compute_bases fs i m) = path_stem ` set (iter_media_files fs i IMG_EXTS)"
  "fst (snd (compute_bases fs i m)) = strip_mask_suffix ` path_stem `
      {x \<in> set (iter_media_files fs m IMG_EXTS). endswith (path_stem x) MASK_SUFFIX}"
  by (simp_all add: compute_bases_def Let_def mask_bases_loop_eq)

lemma prune_survivors_aux:
  assumes run: "prune_main fs img_dir mask_dir False = Inr (r, fs')"
    and ok: "could_not_delete r = []"
    and disj: "set (iter_media_files fs img_dir IMG_EXTS) \<inter> set (iter_media_files fs mask_dir IMG_EXTS) = {}"
  shows "fst (compute_bases fs' img_dir mask_dir)
           = fst (compute_bases fs img_dir mask_dir) \<inter> fst (snd (compute_bases fs img_dir mask_dir))"
    and "fst (snd (compute_bases fs' img_dir mask_dir))
           = fst (compute_bases fs img_dir mask_dir) \<inter> fst (snd (compute_bases fs img_dir mask_dir))"
proof -
  let ?imgs = "iter_media_files fs img_dir IMG_EXTS"
  let ?masks = "iter_media_files fs mask_dir IMG_EXTS"
  let ?I = "fst (compute_bases fs img_dir mask_dir)"
  let ?M = "fst (snd (compute_bases fs img_dir mask_dir))"
  let ?C = "set (unpaired_images r @ unpaired_masks r)"
  note R = prune_main_Inr[OF run]
  have dl: "(fs', the (deleted_files r), could_not_delete r)
           = delete_loop fs (unpaired_images r @ unpaired_masks r) 0 []"
    using R by simp
  have w: "snd (snd (delete_loop fs (unpaired_images r @ unpaired_masks r) 0 [])) = []"
    using dl ok by (metis snd_conv)
  have "entries fs' = entries (fst (delete_loop fs (unpaired_images r @ unpaired_masks r) 0 []))"
    using dl by (metis fst_conv)
  then have e: "entries fs' = filter (\<lambda>e. e \<notin> (\<lambda>p. (p, RegFile)) ` ?C) (entries fs)"
    using delete_loop_no_warning[OF w] by simp
  have imgs': "iter_media_files fs' img_dir IMG_EXTS = filter (\<lambda>p. p \<notin> ?C) ?imgs"
    and masks': "iter_media_files fs' mask_dir IMG_EXTS = filter (\<lambda>p. p \<notin> ?C) ?masks"
    using iter_media_files_after[OF e] by simp_all
  have ui: "set (unpaired_images r) = {p \<in> set ?imgs. path_stem p \<notin> ?M}"
    using R by auto
  have um: "set (unpaired_masks r) = {m \<in> set ?masks. \<not> endswith (path_stem m) MASK_SUFFIX
           \<or> strip_mask_suffix (path_stem m) \<notin> ?I}"
    using R by auto
  have si: "set (filter (\<lambda>p. p \<notin> ?C) ?imgs) = {p \<in> set ?imgs. path_stem p \<in> ?M}"
    using disj by (auto simp: ui um)
  have sm: "set (filter (\<lambda>p. p \<notin> ?C) ?masks) = {m \<in> set ?masks. endswith (path_stem m) MASK_SUFFIX
           \<and> strip_mask_suffix (path_stem m) \<in> ?I}"
    using disj by (auto simp: ui um)
  have I: "?I = path_stem ` set ?imgs" by (rule compute_bases_sets)
  show "fst (compute_bases fs' img_dir mask_dir) = ?I \<inter> ?M"
    unfolding compute_bases_sets(1)[of fs'] imgs' si by (auto simp: I)
  have M: "?M = strip_mask_suffix ` path_stem ` {x \<in> set ?masks. endswith (path_stem x) MASK_SUFFIX}"
    by (rule compute_bases_sets)
  show "fst (snd (compute_bases fs' img_dir mask_dir)) = ?I \<inter> ?M"
    unfolding compute_bases_sets(2)[of fs'] masks' sm by (auto simp: M)
qed

section \<open>Properties of the float model and of the new size\<close>

lemma rhe_int: "round_half_even (of_int n) = n"
  by (simp add: round_half_even_def)

lemma rhe_err: "\<bar>of_int (round_half_even x) - x\<bar> \<le> 1 / 2"
proof -
  have "of_int \<lfloor>x\<rfloor> \<le> x" "x < of_int \<lfloor>x\<rfloor> + 1" by linarith+
  then show ?thesis
    by (auto simp: round_half_even_def Let_def abs_le_iff)
qed

lemma rhe_mono:
  assumes "x \<le> y"
  shows "round_half_even x \<le> round_half_even y"
proof (cases "\<lfloor>x\<rfloor> = \<lfloor>y\<rfloor>")
  case True
  then show ?thesis using assms
    by (auto simp: round_half_even_def Let_def)
next
  case False
  then have "\<lfloor>x\<rfloor> < \<lfloor>y\<rfloor>" using assms floor_mono[OF assms] by linarith
  moreover have "round_half_even x \<le> \<lfloor>x\<rfloor> + 1" by (simp add: round_half_even_def Let_def)
  moreover have "\<lfloor>y\<rfloor> \<le> round_half_even y" by (simp add: round_half_even_def Let_def)
  ultimately show ?thesis by linarith
qed

lemma rhe_near_int:
  assumes "\<bar>x - of_int n\<bar> < 1 / 2"
  shows "round_half_even x = n"
proof -
  have "\<bar>(of_int (round_half_even x) :: rat) - of_int n\<bar> < 1"
    using rhe_err[of x] assms by linarith
  then have "\<bar>(of_int (round_half_even x - n) :: rat)\<bar> < 1" by simp
  then have "\<bar>round_half_even x - n\<bar> < 1"
    by (metis of_int_abs of_int_less_1_iff)
  then show ?thesis by linarith
qed

lemma powi_nonneg: "0 \<le> k \<Longrightarrow> (2::rat) powi k = 2 ^ nat k"
  by (simp add: power_int_def)

lemma powi_neg: "0 \<le> k \<Longrightarrow> (2::rat) powi (- k) = inverse (2 ^ nat k)"
  by (simp add: power_int_minus powi_nonneg)

lemma float_exponent_bounds:
  assumes "0 < x"
  shows "2 powi float_exponent x \<le> x" and "x < 2 powi (float_exponent x + 1)"
proof -
  show "2 powi float_exponent x \<le> x"
  proof (cases "1 \<le> x")
    case True
    then have a: "0 < \<lfloor>x\<rfloor>" by linarith
    have "(2::int) ^ nat (bitlen \<lfloor>x\<rfloor> - 1) \<le> \<lfloor>x\<rfloor>" using bitlen_bounds[OF a] by simp
    then have "(of_int ((2::int) ^ nat (bitlen \<lfloor>x\<rfloor> - 1)) :: rat) \<le> of_int \<lfloor>x\<rfloor>"
      by (simp only: of_int_le_iff)
    also have "\<dots> \<le> x" by (rule of_int_floor_le)
    finally have "(2::rat) ^ nat (bitlen \<lfloor>x\<rfloor> - 1) \<le> x" by simp
    moreover have "1 \<le> bitlen \<lfloor>x\<rfloor>" using a bitlen_eq_zero_iff[of "\<lfloor>x\<rfloor>"] bitlen_nonneg[of "\<lfloor>x\<rfloor>"] by linarith
    moreover have "float_exponent x = bitlen \<lfloor>x\<rfloor> - 1" using True by (simp add: float_exponent_def)
    ultimately show ?thesis using powi_nonneg[of "bitlen \<lfloor>x\<rfloor> - 1"] by simp
  next
    case False
    then have x1: "x < 1" by simp
    let ?c = "\<lceil>1 / x\<rceil>"
    have "1 < 1 / x" using assms x1 by simp
    then have c: "0 < ?c - 1" by linarith
    let ?k = "bitlen (?c - 1)"
    have k: "1 \<le> ?k" using c bitlen_eq_zero_iff[of "?c - 1"] bitlen_nonneg[of "?c - 1"] by linarith
    have "?c - 1 < 2 ^ nat ?k" using bitlen_bounds[OF c] by simp
    then have "?c \<le> 2 ^ nat ?k" by linarith
    then have "(of_int ?c :: rat) \<le> of_int (2 ^ nat ?k)" by (simp only: of_int_le_iff)
    then have "1 / x \<le> of_int (2 ^ nat ?k)" using le_of_int_ceiling[of "1 / x"] by linarith
    then have "1 / x \<le> 2 ^ nat ?k" by simp
    then have "1 \<le> 2 ^ nat ?k * x" using assms by (simp add: field_simps)
    then have "inverse (2 ^ nat ?k) \<le> x" by (simp add: field_simps)
    moreover have "float_exponent x = - ?k" using False by (simp add: float_exponent_def)
    ultimately show ?thesis using powi_neg[of ?k] k by simp
  qed
  show "x < 2 powi (float_exponent x + 1)"
  proof (cases "1 \<le> x")
    case True
    then have a: "0 < \<lfloor>x\<rfloor>" by linarith
    have "\<lfloor>x\<rfloor> < 2 ^ nat (bitlen \<lfloor>x\<rfloor>)" using bitlen_bounds[OF a] by simp
    then have "\<lfloor>x\<rfloor> + 1 \<le> 2 ^ nat (bitlen \<lfloor>x\<rfloor>)" by linarith
    then have "(of_int (\<lfloor>x\<rfloor> + 1) :: rat) \<le> of_int (2 ^ nat (bitlen \<lfloor>x\<rfloor>))" by (simp only: of_int_le_iff)
    moreover have "x < of_int (\<lfloor>x\<rfloor> + 1)" by linarith
    ultimately have "x < of_int (2 ^ nat (bitlen \<lfloor>x\<rfloor>))" by linarith
    then have "x < 2 ^ nat (bitlen \<lfloor>x\<rfloor>)" by simp
    moreover have "0 \<le> bitlen \<lfloor>x\<rfloor>" by (rule bitlen_nonneg)
    moreover have "float_exponent x + 1 = bitlen \<lfloor>x\<rfloor>" using True by (simp add: float_exponent_def)
    ultimately show ?thesis using powi_nonneg[of "bitlen \<lfloor>x\<rfloor>"] by simp
  next
    case False
    then have x1: "x < 1" by simp
    let ?c = "\<lceil>1 / x\<rceil>"
    have "1 < 1 / x" using assms x1 by simp
    then have c: "0 < ?c - 1" by linarith
    let ?k = "bitlen (?c - 1)"
    have k: "1 \<le> ?k" using c bitlen_eq_zero_iff[of "?c - 1"] bitlen_nonneg[of "?c - 1"] by linarith
    have "2 ^ nat (?k - 1) \<le> ?c - 1" using bitlen_bounds[OF c] by simp
    then have "(of_int (2 ^ nat (?k - 1)) :: rat) \<le> of_int (?c - 1)" by (simp only: of_int_le_iff)
    moreover have "of_int (?c - 1) < 1 / x" by linarith
    ultimately have "of_int (2 ^ nat (?k - 1)) < 1 / x" by linarith
    then have "2 ^ nat (?k - 1) < 1 / x" by simp
    then have "2 ^ nat (?k - 1) * x < 1" using assms by (simp add: field_simps)
    then have lt: "x < inverse (2 ^ nat (?k - 1))" by (simp add: field_simps)
    have "float_exponent x + 1 = - (?k - 1)" using False by (simp add: float_exponent_def)
    then show ?thesis using powi_neg[of "?k - 1"] k lt by simp
  qed
qed

lemma powi_pos: "0 < (2::rat) powi k"
  by (simp add: zero_less_power_int)

lemma powi_split: "(2::rat) powi (a + b) = 2 powi a * 2 powi b"
  by (simp add: power_int_add)

lemma powi_52: "(2::rat) powi 52 = 2 ^ 52" and powi_53: "(2::rat) powi 53 = 2 ^ 53"
  using powi_nonneg[of 52] powi_nonneg[of 53] by simp_all

lemma powi_mono: "a \<le> b \<Longrightarrow> (2::rat) powi a \<le> 2 powi b"
  by (rule power_int_increasing) simp_all

text \<open>The scaled significand of a positive number lies in [2^52, 2^53).\<close>

lemma significand_bounds:
  assumes "0 < x"
  defines "e \<equiv> float_exponent x - 52"
  shows "2 ^ 52 \<le> x / 2 powi e" and "x / 2 powi e < 2 ^ 53"
proof -
  have e1: "e + 52 = float_exponent x" and e2: "e + 53 = float_exponent x + 1"
    by (simp_all add: e_def)
  have a: "2 powi (e + 52) \<le> x" and b: "x < 2 powi (e + 53)"
    unfolding e1 e2 using float_exponent_bounds[OF assms(1)] by blast+
  have "2 powi e * 2 ^ 52 \<le> x" using a by (simp add: powi_split powi_52)
  then show "2 ^ 52 \<le> x / 2 powi e" using powi_pos[of e] by (simp add: field_simps)
  have "x < 2 powi e * 2 ^ 53" using b by (simp add: powi_split powi_53)
  then show "x / 2 powi e < 2 ^ 53" using powi_pos[of e] by (simp add: field_simps)
qed

lemma fl_positive_eq:
  assumes "0 < x"
  shows "fl x = of_int (round_half_even (x / 2 powi (float_exponent x - 52))) * 2 powi (float_exponent x - 52)"
  using assms by (simp add: fl_def Let_def)

lemma rhe_significand:
  assumes "0 < x"
  shows "2 ^ 52 \<le> round_half_even (x / 2 powi (float_exponent x - 52))"
    and "round_half_even (x / 2 powi (float_exponent x - 52)) \<le> 2 ^ 53"
proof -
  let ?y = "x / 2 powi (float_exponent x - 52)"
  have "round_half_even (of_int (2 ^ 52)) \<le> round_half_even ?y"
    using significand_bounds(1)[OF assms] by (intro rhe_mono) simp
  then show "2 ^ 52 \<le> round_half_even ?y" by (simp only: rhe_int)
  have "round_half_even ?y \<le> round_half_even (of_int (2 ^ 53))"
    using significand_bounds(2)[OF assms] by (intro rhe_mono) simp
  then show "round_half_even ?y \<le> 2 ^ 53" by (simp only: rhe_int)
qed

lemma fl_range:
  assumes "0 < x"
  shows "2 powi float_exponent x \<le> fl x" and "fl x \<le> 2 powi (float_exponent x + 1)"
proof -
  let ?e = "float_exponent x - 52"
  let ?r = "round_half_even (x / 2 powi ?e)"
  have r: "(2::rat) ^ 52 \<le> of_int ?r" "(of_int ?r :: rat) \<le> 2 ^ 53"
    using rhe_significand[OF assms] by (metis of_int_le_iff of_int_numeral of_int_power)+
  have "52 + ?e = float_exponent x" "53 + ?e = float_exponent x + 1" by simp_all
  then have s52: "(2::rat) powi float_exponent x = 2 ^ 52 * 2 powi ?e"
    and s53: "(2::rat) powi (float_exponent x + 1) = 2 ^ 53 * 2 powi ?e"
    using powi_split[of 52 ?e] powi_split[of 53 ?e] by (simp_all only: powi_52 powi_53)
  have "(2::rat) powi float_exponent x = 2 ^ 52 * 2 powi ?e" by (rule s52)
  also have "\<dots> \<le> of_int ?r * 2 powi ?e"
    using r(1) powi_pos[of ?e] by (intro mult_right_mono) simp_all
  finally show "2 powi float_exponent x \<le> fl x" by (simp add: fl_positive_eq[OF assms])
  have "(of_int ?r :: rat) * 2 powi ?e \<le> 2 ^ 53 * 2 powi ?e"
    using r(2) powi_pos[of ?e] by (intro mult_right_mono) simp_all
  also have "\<dots> = 2 powi (float_exponent x + 1)" by (simp only: s53)
  finally show "fl x \<le> 2 powi (float_exponent x + 1)" by (simp add: fl_positive_eq[OF assms])
qed

lemma fl_pos: "0 < x \<Longrightarrow> 0 < fl x"
  using fl_range(1)[of x] powi_pos[of "float_exponent x"] by linarith

lemma float_exponent_mono:
  assumes "0 < x" "x \<le> y"
  shows "float_exponent x \<le> float_exponent y"
proof (rule ccontr)
  assume "\<not> float_exponent x \<le> float_exponent y"
  then have "float_exponent y + 1 \<le> float_exponent x" by simp
  then have "(2::rat) powi (float_exponent y + 1) \<le> 2 powi float_exponent x" by (rule powi_mono)
  moreover have "y < 2 powi (float_exponent y + 1)" using float_exponent_bounds(2)[of y] assms by simp
  moreover have "2 powi float_exponent x \<le> x" using float_exponent_bounds(1)[OF assms(1)] .
  ultimately show False using assms by linarith
qed

lemma fl_mono:
  assumes "0 < x" "x \<le> y"
  shows "fl x \<le> fl y"
proof (cases "float_exponent x = float_exponent y")
  case True
  have y: "0 < y" using assms by simp
  let ?e = "float_exponent y - 52"
  have "x / 2 powi ?e \<le> y / 2 powi ?e" using assms powi_pos[of ?e] by (simp add: divide_right_mono)
  then have "round_half_even (x / 2 powi ?e) \<le> round_half_even (y / 2 powi ?e)" by (rule rhe_mono)
  then have "(of_int (round_half_even (x / 2 powi ?e)) :: rat) \<le> of_int (round_half_even (y / 2 powi ?e))"
    by (simp only: of_int_le_iff)
  then have "(of_int (round_half_even (x / 2 powi ?e)) :: rat) * 2 powi ?e \<le> of_int (round_half_even (y / 2 powi ?e)) * 2 powi ?e"
    using powi_pos[of ?e] by (intro mult_right_mono) simp_all
  then show ?thesis using True by (simp add: fl_positive_eq[OF assms(1)] fl_positive_eq[OF y])
next
  case False
  have y: "0 < y" using assms by simp
  from False float_exponent_mono[OF assms] have "float_exponent x + 1 \<le> float_exponent y" by simp
  then have "(2::rat) powi (float_exponent x + 1) \<le> 2 powi float_exponent y" by (rule powi_mono)
  then show ?thesis using fl_range(2)[OF assms(1)] fl_range(1)[OF y] by linarith
qed

lemma fl_err:
  assumes "0 < x"
  shows "\<bar>fl x - x\<bar> \<le> x / 2 ^ 53"
proof -
  let ?e = "float_exponent x - 52"
  let ?y = "x / 2 powi ?e"
  have p: "0 < (2::rat) powi ?e" by (rule powi_pos)
  have "fl x - x = (of_int (round_half_even ?y) - ?y) * 2 powi ?e"
    using p by (simp add: fl_positive_eq[OF assms] field_simps)
  then have "\<bar>fl x - x\<bar> = \<bar>of_int (round_half_even ?y) - ?y\<bar> * 2 powi ?e"
    using p by (simp add: abs_mult)
  also have "\<dots> \<le> (1 / 2) * 2 powi ?e"
    using rhe_err[of ?y] p by (intro mult_right_mono) simp_all
  also have "\<dots> \<le> x / 2 ^ 53"
  proof -
    have "2 ^ 52 * 2 powi ?e \<le> x" using significand_bounds(1)[OF assms] p by (simp add: field_simps)
    then show ?thesis by simp
  qed
  finally show ?thesis .
qed

lemma fl_upper:
  assumes "0 < x"
  shows "fl x \<le> x * (1 + 1 / 2 ^ 53)"
proof -
  have "fl x - x \<le> x / 2 ^ 53" using fl_err[OF assms] by linarith
  then have "fl x \<le> x + x / 2 ^ 53" by linarith
  also have "\<dots> = x * (1 + 1 / 2 ^ 53)" by (simp only: distrib_left mult_1_right times_divide_eq_right)
  finally show ?thesis .
qed

lemma fl_lower:
  assumes "0 < x"
  shows "x * (1 - 1 / 2 ^ 53) \<le> fl x"
proof -
  have "x - fl x \<le> x / 2 ^ 53" using fl_err[OF assms] by linarith
  then have "x - x / 2 ^ 53 \<le> fl x" by linarith
  moreover have "x - x / 2 ^ 53 = x * (1 - 1 / 2 ^ 53)"
    by (simp only: right_diff_distrib mult_1_right times_divide_eq_right)
  ultimately show ?thesis by simp
qed

lemma round_trip_bounds:
  assumes w: "0 < w" and W: "0 < W"
  defines "p \<equiv> py_mul w (fl (of_int W / of_int w))"
  shows "p \<le> of_int W * (1 + 1 / 2 ^ 53) ^ 3" and "of_int W * (1 - 1 / 2 ^ 53) ^ 3 \<le> p"
proof -
  let ?u = "1 / 2 ^ 53 :: rat"
  let ?q = "of_int W / of_int w :: rat"
  let ?a = "fl (of_int w)"
  let ?s = "fl ?q"
  have wpos: "0 < (of_int w :: rat)" and Wpos: "0 < (of_int W :: rat)" using w W by simp_all
  have qpos: "0 < ?q" using wpos Wpos by simp
  have apos: "0 < ?a" and spos: "0 < ?s" using fl_pos wpos qpos by blast+
  have wq: "of_int w * ?q = (of_int W :: rat)" using wpos by simp
  have u1: "0 \<le> 1 - ?u" "0 \<le> 1 + ?u" by simp_all
  have "?a * ?s \<le> (of_int w * (1 + ?u)) * (?q * (1 + ?u))"
    using fl_upper[OF wpos] fl_upper[OF qpos] apos spos by (intro mult_mono) simp_all
  also have "\<dots> = (of_int w * ?q) * (1 + ?u) ^ 2"
    by (simp only: power2_eq_square mult.assoc mult.left_commute)
  also have "\<dots> = of_int W * (1 + ?u) ^ 2" by (simp only: wq)
  finally have up: "?a * ?s \<le> of_int W * (1 + ?u) ^ 2" .
  have "(of_int w * (1 - ?u)) * (?q * (1 - ?u)) \<le> ?a * ?s"
    using fl_lower[OF wpos] fl_lower[OF qpos] wpos qpos by (intro mult_mono) simp_all
  moreover have "(of_int w * (1 - ?u)) * (?q * (1 - ?u)) = (of_int w * ?q) * (1 - ?u) ^ 2"
    by (simp only: power2_eq_square mult.assoc mult.left_commute)
  moreover have "(of_int w * ?q) * (1 - ?u) ^ 2 = of_int W * (1 - ?u) ^ 2" by (simp only: wq)
  ultimately have lo: "of_int W * (1 - ?u) ^ 2 \<le> ?a * ?s" by simp
  have aspos: "0 < ?a * ?s" using apos spos by simp
  have pdef: "p = fl (?a * ?s)" by (simp add: p_def py_mul_def py_float_def)
  have "p \<le> (?a * ?s) * (1 + ?u)" unfolding pdef by (rule fl_upper[OF aspos])
  also have "\<dots> \<le> (of_int W * (1 + ?u) ^ 2) * (1 + ?u)"
    using up by (intro mult_right_mono) simp_all
  also have "\<dots> = of_int W * (1 + ?u) ^ 3" by (simp add: power3_eq_cube power2_eq_square)
  finally show "p \<le> of_int W * (1 + 1 / 2 ^ 53) ^ 3" .
  have "of_int W * (1 - ?u) ^ 3 = (of_int W * (1 - ?u) ^ 2) * (1 - ?u)"
    by (simp add: power3_eq_cube power2_eq_square)
  also have "\<dots> \<le> (?a * ?s) * (1 - ?u)"
    using lo by (intro mult_right_mono) simp_all
  also have "\<dots> \<le> p" unfolding pdef by (rule fl_lower[OF aspos])
  finally show "of_int W * (1 - 1 / 2 ^ 53) ^ 3 \<le> p" .
qed

lemma round_trip:
  assumes w: "0 < w" and W: "0 < W" "W \<le> 2 ^ 50"
  shows "round_half_even (py_mul w (fl (of_int W / of_int w))) = W"
proof -
  let ?p = "py_mul w (fl (of_int W / of_int w))"
  let ?W = "of_int W :: rat"
  have "?W \<le> of_int (2 ^ 50)" using W(2) by (simp only: of_int_le_iff)
  then have W50: "?W \<le> 2 ^ 50" by simp
  have W0: "0 < ?W" using W(1) by simp
  note Wr = W0 W50
  have "?p - ?W \<le> ?W * ((1 + 1 / 2 ^ 53) ^ 3 - 1)"
    using round_trip_bounds(1)[OF w W(1)] by (simp add: algebra_simps)
  also have "\<dots> \<le> 2 ^ 50 * ((1 + 1 / 2 ^ 53) ^ 3 - 1)"
    using Wr by (intro mult_right_mono) (simp_all add: power3_eq_cube)
  also have "\<dots> < 1 / 2" by (simp add: power3_eq_cube)
  finally have up: "?p - ?W < 1 / 2" .
  have "?W - ?p \<le> ?W * (1 - (1 - 1 / 2 ^ 53) ^ 3)"
    using round_trip_bounds(2)[OF w W(1)] by (simp add: algebra_simps)
  also have "\<dots> \<le> 2 ^ 50 * (1 - (1 - 1 / 2 ^ 53) ^ 3)"
    using Wr by (intro mult_right_mono) (simp_all add: power3_eq_cube)
  also have "\<dots> < 1 / 2" by (simp add: power3_eq_cube)
  finally have lo: "?W - ?p < 1 / 2" .
  have "\<bar>?p - ?W\<bar> < 1 / 2" using up lo by linarith
  then show ?thesis by (rule rhe_near_int)
qed

lemma scaled_le:
  assumes w: "0 < w" and W: "0 < W" "W \<le> 2 ^ 50" and s: "0 < s" "s \<le> fl (of_int W / of_int w)"
  shows "max 1 (round_half_even (py_mul w s)) \<le> W"
proof -
  have wpos: "0 < (of_int w :: rat)" using w by simp
  have apos: "0 < py_float w" unfolding py_float_def by (rule fl_pos[OF wpos])
  have "py_float w * s \<le> py_float w * fl (of_int W / of_int w)"
    using apos s by (intro mult_left_mono) simp_all
  moreover have "0 < py_float w * s" using apos s by simp
  ultimately have "py_mul w s \<le> py_mul w (fl (of_int W / of_int w))"
    unfolding py_mul_def by (intro fl_mono)
  then have "round_half_even (py_mul w s) \<le> round_half_even (py_mul w (fl (of_int W / of_int w)))"
    by (rule rhe_mono)
  then show ?thesis using round_trip[OF w W] W by simp
qed

lemma new_size_within:
  assumes "0 < w" "0 < h" "0 < W" "W \<le> 2 ^ 50" "0 < H" "H \<le> 2 ^ 50"
  shows "\<exists>nw nh. new_size (w, h) (W, H) = Inr (nw, nh) \<and> 1 \<le> nw \<and> nw \<le> W \<and> 1 \<le> nh \<and> nh \<le> H"
proof -
  let ?sw = "fl (of_int W / of_int w)" and ?sh = "fl (of_int H / of_int h)"
  have swp: "0 < ?sw" and shp: "0 < ?sh" using assms by (auto intro!: fl_pos)
  then have mp: "0 < min ?sw ?sh" by simp
  have "max 1 (round_half_even (py_mul w (min ?sw ?sh))) \<le> W"
    using assms mp by (intro scaled_le) simp_all
  moreover have "max 1 (round_half_even (py_mul h (min ?sw ?sh))) \<le> H"
    using assms mp by (intro scaled_le) simp_all
  ultimately show ?thesis using assms
    by (simp add: new_size_def py_truediv_def Let_def)
qed

section \<open>The claims about the prune pass\<close>

lemma scenario_run:
  "prune_main prune_scenario_fs [''out'', ''img''] [''out'', ''mask''] False =
     Inr (\<lparr>images_found = 2, masks_found = 1,
            unpaired_images = [[''out'', ''img'', ''C1_100H0002.jpg'']],
            unpaired_masks = [], deleted_files = Some 1, could_not_delete = []\<rparr>,
          \<lparr>entries =
             [([''out''], Directory), ([''out'', ''img''], Directory), ([''out'', ''mask''], Directory),
              ([''out'', ''img'', ''C1_100H0001.jpg''], RegFile),
              ([''out'', ''mask'', ''C1_100H0001_mask.png''], RegFile)],
           locked = []\<rparr>)"
  by code_simp

text \<open>
  Claim C2, as amended.  When the prune pass runs in non-preview mode, reports no
  file it could not delete, and no file is enumerated under both directories, then,
  with \<open>I\<close> the image basenames and \<open>M\<close> the mask root basenames before the run, the
  image basenames and the mask root basenames enumerated after the run are both
  \<open>I \<inter> M\<close>.  With images \<open>C1_100H0001\<close>, \<open>C1_100H0002\<close> and the only mask
  \<open>C1_100H0001_mask.png\<close>, the run lists one unpaired image and no unpaired mask and
  removes the image \<open>C1_100H0002\<close>.
\<close>

theorem prune_survivors:
  assumes "prune_main fs img_dir mask_dir False = Inr (r, fs')"
    and "could_not_delete r = []"
    and "set (iter_media_files fs img_dir IMG_EXTS) \<inter> set (iter_media_files fs mask_dir IMG_EXTS) = {}"
    and "compute_bases fs img_dir mask_dir = (I, M, images, masks)"
  shows "fst (compute_bases fs' img_dir mask_dir) = I \<inter> M
       \<and> fst (snd (compute_bases fs' img_dir mask_dir)) = I \<inter> M
       \<and> prune_main prune_scenario_fs [''out'', ''img''] [''out'', ''mask''] False =
           Inr (\<lparr>images_found = 2, masks_found = 1,
                  unpaired_images = [[''out'', ''img'', ''C1_100H0002.jpg'']],
                  unpaired_masks = [], deleted_files = Some 1, could_not_delete = []\<rparr>,
                \<lparr>entries =
                   [([''out''], Directory), ([''out'', ''img''], Directory),
                    ([''out'', ''mask''], Directory),
                    ([''out'', ''img'', ''C1_100H0001.jpg''], RegFile),
                    ([''out'', ''mask'', ''C1_100H0001_mask.png''], RegFile)],
                 locked = []\<rparr>)"
  using prune_survivors_aux[OF assms(1-3)] assms(4) scenario_run by simp

lemma scenario_bases:
  "compute_bases prune_scenario_fs [''out'', ''img''] [''out'', ''mask''] =
     ({''C1_100H0001'', ''C1_100H0002''}, {''C1_100H0001''},
      [[''out'', ''img'', ''C1_100H0001.jpg''], [''out'', ''img'', ''C1_100H0002.jpg'']],
      [[''out'', ''mask'', ''C1_100H0001_mask.png'']])"
  by code_simp

lemma scenario_disjoint:
  "set (iter_media_files prune_scenario_fs [''out'', ''img''] IMG_EXTS)
     \<inter> set (iter_media_files prune_scenario_fs [''out'', ''mask''] IMG_EXTS) = {}"
  by code_simp

theorem prune_survivors_witness:
  "fst (compute_bases
         \<lparr>entries =
            [([''out''], Directory), ([''out'', ''img''], Directory), ([''out'', ''mask''], Directory),
             ([''out'', ''img'', ''C1_100H0001.jpg''], RegFile),
             ([''out'', ''mask'', ''C1_100H0001_mask.png''], RegFile)],
          locked = []\<rparr> [''out'', ''img''] [''out'', ''mask''])
     = {''C1_100H0001'', ''C1_100H0002''} \<inter> {''C1_100H0001''}"
  using prune_survivors[OF scenario_run _ scenario_disjoint scenario_bases] by simp

text \<open>
  The claim as stated, for every pair of directories, fails on two inputs: when the
  operating system refuses to remove the unpaired image, the image survives the run;
  and when both arguments name the same directory, the image and its mask are each
  removed as the other role's unpaired file.
\<close>

theorem prune_survivors_counterexample:
  "(case prune_main prune_locked_fs [''out'', ''img''] [''out'', ''mask''] False of
      Inl e \<Rightarrow> False
    | Inr (r, fs') \<Rightarrow>
        fst (compute_bases fs' [''out'', ''img''] [''out'', ''mask''])
          \<noteq> fst (compute_bases prune_locked_fs [''out'', ''img''] [''out'', ''mask''])
            \<inter> fst (snd (compute_bases prune_locked_fs [''out'', ''img''] [''out'', ''mask''])))
   \<and> (case prune_main prune_shared_fs [''data''] [''data''] False of
         Inl e \<Rightarrow> False
       | Inr (r, fs') \<Rightarrow>
           fst (compute_bases fs' [''data''] [''data''])
             \<noteq> fst (compute_bases prune_shared_fs [''data''] [''data''])
               \<inter> fst (snd (compute_bases prune_shared_fs [''data''] [''data''])))"
  by code_simp



text \<open>
  Claim C7.  In the prune pass, in either mode, every enumerated mask file whose stem
  does not end with the mask suffix is listed among the unpaired masks, for every
  content of the images directory: also when its stem is the basename of an image.
\<close>

theorem unsuffixed_mask_unpaired:
  assumes "prune_main fs img_dir mask_dir dry_run = Inr (r, fs')"
    and "m \<in> set (iter_media_files fs mask_dir IMG_EXTS)"
    and "\<not> endswith (path_stem m) MASK_SUFFIX"
  shows "m \<in> set (unpaired_masks r)"
  using prune_main_Inr[OF assms(1)] assms(2,3) by simp

lemma badname_run:
  "prune_main prune_badname_fs [''out'', ''img''] [''out'', ''mask''] True =
     Inr (\<lparr>images_found = 1, masks_found = 2, unpaired_images = [],
            unpaired_masks = [[''out'', ''mask'', ''a.png'']],
            deleted_files = None, could_not_delete = []\<rparr>, prune_badname_fs)"
  by code_simp

theorem unsuffixed_mask_unpaired_witness:
  "[''out'', ''mask'', ''a.png'']
     \<in> set (unpaired_masks
          \<lparr>images_found = 1, masks_found = 2, unpaired_images = [],
            unpaired_masks = [[''out'', ''mask'', ''a.png'']],
            deleted_files = None, could_not_delete = []\<rparr>)
   \<and> path_stem [''out'', ''mask'', ''a.png''] = path_stem [''out'', ''img'', ''a.jpg'']
   \<and> path_stem [''out'', ''img'', ''a.jpg'']
       \<in> fst (compute_bases prune_badname_fs [''out'', ''img''] [''out'', ''mask''])"
proof -
  have m: "[''out'', ''mask'', ''a.png'']
      \<in> set (iter_media_files prune_badname_fs [''out'', ''mask''] IMG_EXTS)"
    by code_simp
  have s: "\<not> endswith (path_stem [''out'', ''mask'', ''a.png'']) MASK_SUFFIX"
    by code_simp
  have "path_stem [''out'', ''mask'', ''a.png''] = path_stem [''out'', ''img'', ''a.jpg'']"
    by code_simp
  moreover have "path_stem [''out'', ''img'', ''a.jpg'']
       \<in> fst (compute_bases prune_badname_fs [''out'', ''img''] [''out'', ''mask''])"
    by code_simp
  ultimately show ?thesis
    using unsuffixed_mask_unpaired[OF badname_run m s] by blast
qed

text \<open>
  Claim C9.  A dry run of the prune pass fails exactly when the real run fails;
  otherwise it leaves the file system as it is and lists the same unpaired images
  and the same unpaired masks as the real run on the same state, and the real run
  removes exactly the listed files (those the operating system lets it remove) and
  nothing else.
\<close>

theorem dry_run_previews_deletion:
  "(case prune_main fs img_dir mask_dir True of
      Inl e \<Rightarrow> prune_main fs img_dir mask_dir False = Inl e
    | Inr (r, fs1) \<Rightarrow>
        fs1 = fs
        \<and> (\<exists>r' fs2. prune_main fs img_dir mask_dir False = Inr (r', fs2)
              \<and> unpaired_images r' = unpaired_images r
              \<and> unpaired_masks r' = unpaired_masks r
              \<and> locked fs2 = locked fs
              \<and> entries fs2 =
                  filter (\<lambda>e. \<forall>p \<in> set (unpaired_images r @ unpaired_masks r).
                                e = (p, RegFile) \<longrightarrow> p \<in> set (locked fs))
                    (entries fs)))"
proof (cases "prune_main fs img_dir mask_dir True")
  case (Inl e)
  then show ?thesis
    by (auto simp: prune_main_def Let_def split: if_splits prod.splits)
next
  case (Inr a)
  obtain r fs1 where a: "a = (r, fs1)" by (cases a)
  note D = prune_main_Inr[OF Inr[unfolded a]]
  obtain r' fs2 where N: "prune_main fs img_dir mask_dir False = Inr (r', fs2)"
    using prune_main_defined[of fs img_dir mask_dir False] D by blast
  note E = prune_main_Inr[OF N]
  have ui: "unpaired_images r' = unpaired_images r" and um: "unpaired_masks r' = unpaired_masks r"
    using D E by simp_all
  have dl: "(fs2, the (deleted_files r'), could_not_delete r')
       = delete_loop fs (unpaired_images r @ unpaired_masks r) 0 []"
    using E ui um by simp
  have fs2: "fs2 = fst (delete_loop fs (unpaired_images r @ unpaired_masks r) 0 [])"
    using dl by (metis fst_conv)
  have "locked fs2 = locked fs" unfolding fs2 by (rule delete_loop_locked)
  moreover have "entries fs2 =
       filter (\<lambda>e. \<forall>p \<in> set (unpaired_images r @ unpaired_masks r).
                     e = (p, RegFile) \<longrightarrow> p \<in> set (locked fs)) (entries fs)"
    unfolding fs2 by (rule delete_loop_entries)
  moreover have "fs1 = fs" using D by simp
  ultimately show ?thesis using Inr a N ui um by simp
qed

lemma scenario_dry:
  "prune_main prune_scenario_fs [''out'', ''img''] [''out'', ''mask''] True =
     Inr (\<lparr>images_found = 2, masks_found = 1,
            unpaired_images = [[''out'', ''img'', ''C1_100H0002.jpg'']],
            unpaired_masks = [], deleted_files = None, could_not_delete = []\<rparr>,
          prune_scenario_fs)"
  by code_simp

theorem dry_run_previews_deletion_witness:
  "\<exists>r' fs2. prune_main prune_scenario_fs [''out'', ''img''] [''out'', ''mask''] False = Inr (r', fs2)
      \<and> unpaired_images r' = [[''out'', ''img'', ''C1_100H0002.jpg'']]
      \<and> unpaired_masks r' = []
      \<and> entries fs2 =
           [([''out''], Directory), ([''out'', ''img''], Directory), ([''out'', ''mask''], Directory),
            ([''out'', ''img'', ''C1_100H0001.jpg''], RegFile),
            ([''out'', ''mask'', ''C1_100H0001_mask.png''], RegFile)]"
  using dry_run_previews_deletion[of prune_scenario_fs "[''out'', ''img'']" "[''out'', ''mask'']"]
  unfolding scenario_dry
  by (simp add: prune_scenario_fs_def del: ex_simps) blast


section \<open>The claims about the merge pass and the enumerations\<close>




lemma masks_dir: "is_dir masks_fs [''m'']"
  by code_simp



text \<open>
  Claim C6, as amended.  In a directory \<open>base\<close>, the lookup returns the subdirectory
  with the exact name when there is one; otherwise it returns the first child, in
  enumeration order, that is a directory whose lower-cased name starts with the
  lower-cased prefix, and nothing when there is no such child.  A split directory for
  which either lookup returns nothing is skipped: \<open>process_split\<close> returns normally,
  with the warning, zero counts and empty lists, the file system untouched, and the
  copy loop is not entered.
\<close>

theorem find_dir_exact_then_first_prefix:
  assumes "is_dir fs base"
  shows "(is_dir fs (base @ [exact]) \<longrightarrow>
            find_dir_exact_or_prefix fs base exact pre = Inr (Some (base @ [exact])))
       \<and> (\<not> is_dir fs (base @ [exact]) \<longrightarrow>
            (\<forall>p. find_dir_exact_or_prefix fs base exact pre = Inr (Some p) \<longleftrightarrow>
                 (\<exists>i < length (children fs base).
                     children fs base ! i = p
                     \<and> is_dir fs p \<and> startswith (lower (path_name p)) (lower pre)
                     \<and> (\<forall>j < i. \<not> (is_dir fs (children fs base ! j)
                            \<and> startswith (lower (path_name (children fs base ! j))) (lower pre)))))
            \<and> (find_dir_exact_or_prefix fs base exact pre = Inr None \<longleftrightarrow>
                 (\<forall>p \<in> set (children fs base).
                     \<not> (is_dir fs p \<and> startswith (lower (path_name p)) (lower pre)))))
       \<and> (is_dir fs data_dir
            \<and> (find_dir_exact_or_prefix fs data_dir
                  (''images_'' @ split_last ''data_'' 0 [] (path_name data_dir)) ''images_'' = Inr None
               \<or> find_dir_exact_or_prefix fs data_dir
                  (''masks_'' @ split_last ''data_'' 0 [] (path_name data_dir)) ''masks_'' = Inr None) \<longrightarrow>
            process_split copy_loop fs data_dir =
              Inr ([''[WARN] Skipping '' @ path_name data_dir @ '': missing images_/masks_ folder(s).''],
                   (0, 0, [], []), fs))"
proof -
  have a: "is_dir fs (base @ [exact]) \<longrightarrow>
            find_dir_exact_or_prefix fs base exact pre = Inr (Some (base @ [exact]))"
    by (simp add: find_dir_exact_or_prefix_def)
  have f: "\<not> is_dir fs (base @ [exact]) \<Longrightarrow> find_dir_exact_or_prefix fs base exact pre
      = Inr (find (\<lambda>p. is_dir fs p \<and> startswith (lower (path_name p)) (lower pre)) (children fs base))"
    using assms by (simp add: find_dir_exact_or_prefix_def iterdir_def)
  have b: "\<not> is_dir fs (base @ [exact]) \<longrightarrow>
            (\<forall>p. find_dir_exact_or_prefix fs base exact pre = Inr (Some p) \<longleftrightarrow>
                 (\<exists>i < length (children fs base).
                     children fs base ! i = p
                     \<and> is_dir fs p \<and> startswith (lower (path_name p)) (lower pre)
                     \<and> (\<forall>j < i. \<not> (is_dir fs (children fs base ! j)
                            \<and> startswith (lower (path_name (children fs base ! j))) (lower pre)))))"
    using f by (auto simp: find_Some_iff)
  have c: "\<not> is_dir fs (base @ [exact]) \<longrightarrow>
            (find_dir_exact_or_prefix fs base exact pre = Inr None \<longleftrightarrow>
                 (\<forall>p \<in> set (children fs base).
                     \<not> (is_dir fs p \<and> startswith (lower (path_name p)) (lower pre))))"
    using f by (auto simp: find_None_iff)
  have d: "is_dir fs data_dir
            \<and> (find_dir_exact_or_prefix fs data_dir
                  (''images_'' @ split_last ''data_'' 0 [] (path_name data_dir)) ''images_'' = Inr None
               \<or> find_dir_exact_or_prefix fs data_dir
                  (''masks_'' @ split_last ''data_'' 0 [] (path_name data_dir)) ''masks_'' = Inr None) \<longrightarrow>
            process_split copy_loop fs data_dir =
              Inr ([''[WARN] Skipping '' @ path_name data_dir @ '': missing images_/masks_ folder(s).''],
                   (0, 0, [], []), fs)"
  proof (intro impI, elim conjE)
    assume dd: "is_dir fs data_dir"
      and n: "find_dir_exact_or_prefix fs data_dir
                  (''images_'' @ split_last ''data_'' 0 [] (path_name data_dir)) ''images_'' = Inr None
               \<or> find_dir_exact_or_prefix fs data_dir
                  (''masks_'' @ split_last ''data_'' 0 [] (path_name data_dir)) ''masks_'' = Inr None"
    have r: "\<exists>v. find_dir_exact_or_prefix fs data_dir e q = Inr v" for e q
      using dd by (simp add: find_dir_exact_or_prefix_def iterdir_def Let_def)
    obtain vi where vi: "find_dir_exact_or_prefix fs data_dir
                  (''images_'' @ split_last ''data_'' 0 [] (path_name data_dir)) ''images_'' = Inr vi"
      using r by blast
    obtain vm where vm: "find_dir_exact_or_prefix fs data_dir
                  (''masks_'' @ split_last ''data_'' 0 [] (path_name data_dir)) ''masks_'' = Inr vm"
      using r by blast
    have "vi = None \<or> vm = None" using n vi vm by auto
    then show "process_split copy_loop fs data_dir =
              Inr ([''[WARN] Skipping '' @ path_name data_dir @ '': missing images_/masks_ folder(s).''],
                   (0, 0, [], []), fs)"
      unfolding process_split_def Let_def vi vm by (auto split: option.splits)
  qed
  show ?thesis using a b c d by blast
qed

text \<open>
  The fallback is not a longest-common-prefix choice: in a split \<open>data_C1\<close> without
  \<open>images_C1\<close> whose subdirectories are enumerated as \<open>images_C2\<close>, \<open>images_C1_v2\<close>, the
  code returns \<open>images_C2\<close>, the first name with the prefix \<open>images_\<close>, where the scan
  the specification words returns \<open>images_C1_v2\<close>, which shares the longer prefix with
  \<open>images_C1\<close>.
\<close>

theorem find_dir_exact_then_first_prefix_counterexample:
  "find_dir_exact_or_prefix split_two_candidates_fs [''root'', ''data_C1''] ''images_C1'' ''images_''
     = Inr (Some [''root'', ''data_C1'', ''images_C2''])
   \<and> spec_find_dir_longest_prefix split_two_candidates_fs [''root'', ''data_C1''] ''images_C1''
     = Some [''root'', ''data_C1'', ''images_C1_v2'']"
  by code_simp

lemma no_masks_dir: "is_dir split_no_masks_fs [''root'', ''data_C1'']"
  by code_simp

theorem find_dir_exact_then_first_prefix_witness:
  "process_split (\<lambda>fs tag i m. Inl ValueError) split_no_masks_fs [''root'', ''data_C1''] =
     Inr ([''[WARN] Skipping data_C1: missing images_/masks_ folder(s).''], (0, 0, [], []),
          split_no_masks_fs)
   \<and> find_dir_exact_or_prefix split_no_masks_fs [''root'', ''data_C1''] ''images_C1'' ''images_''
       = Inr (Some [''root'', ''data_C1'', ''Images_c1_old''])
   \<and> find_dir_exact_or_prefix split_two_candidates_fs [''root'', ''data_C1''] ''masks_C1'' ''masks_''
       = Inr (Some [''root'', ''data_C1'', ''masks_C1''])"
proof -
  have m: "find_dir_exact_or_prefix split_no_masks_fs [''root'', ''data_C1'']
      (''masks_'' @ split_last ''data_'' 0 [] (path_name [''root'', ''data_C1''])) ''masks_'' = Inr None"
    by code_simp
  have n: "path_name [''root'', ''data_C1''] = ''data_C1''" by code_simp
  have "process_split (\<lambda>fs tag i m. Inl ValueError) split_no_masks_fs [''root'', ''data_C1''] =
     Inr ([''[WARN] Skipping data_C1: missing images_/masks_ folder(s).''], (0, 0, [], []),
          split_no_masks_fs)"
    using find_dir_exact_then_first_prefix[OF no_masks_dir, of "''x''" "''y''" "[''root'', ''data_C1'']" "\<lambda>fs tag i m. Inl ValueError"]
      no_masks_dir m n by simp
  moreover have "find_dir_exact_or_prefix split_no_masks_fs [''root'', ''data_C1''] ''images_C1'' ''images_''
       = Inr (Some [''root'', ''data_C1'', ''Images_c1_old''])"
    by code_simp
  moreover have "find_dir_exact_or_prefix split_two_candidates_fs [''root'', ''data_C1''] ''masks_C1'' ''masks_''
       = Inr (Some [''root'', ''data_C1'', ''masks_C1''])"
    by code_simp
  ultimately show ?thesis by simp
qed


text \<open>
  Claim C5.  The four enumerations disagree on a directory holding \<open>x.webp\<close>,
  \<open>.y.png\<close> and \<open>z.PNG\<close>: the merge pass has no \<open>.webp\<close> in its list and does not
  test for a leading dot, so it leaves out \<open>x.webp\<close> and takes the hidden \<open>.y.png\<close>;
  the binariser takes all three, the hidden file included; the prune pass and the
  resizer take \<open>x.webp\<close> and \<open>z.PNG\<close> and leave out the hidden file.
\<close>

theorem enumerations_disagree:
  "gather_media_files media_fs [''d''] = [[''d'', ''.y.png''], [''d'', ''z.PNG'']]
   \<and> binarizer_files media_fs [''d''] = [[''d'', ''x.webp''], [''d'', ''.y.png''], [''d'', ''z.PNG'']]
   \<and> iter_media_files media_fs [''d''] IMG_EXTS = [[''d'', ''x.webp''], [''d'', ''z.PNG'']]
   \<and> filter (is_image_file media_fs) (rglob media_fs [''d'']) = [[''d'', ''x.webp''], [''d'', ''z.PNG'']]"
  by code_simp

section \<open>The claims about the resizer\<close>

lemma float_exponent_unique:
  assumes "0 < x" "2 powi E \<le> x" "x < 2 powi (E + 1)"
  shows "float_exponent x = E"
proof (rule ccontr)
  assume ne: "float_exponent x \<noteq> E"
  show False
  proof (cases "float_exponent x < E")
    case True
    then have "(2::rat) powi (float_exponent x + 1) \<le> 2 powi E" by (intro powi_mono) simp
    then show False using float_exponent_bounds(2)[OF assms(1)] assms(2) by linarith
  next
    case False
    then have "E + 1 \<le> float_exponent x" using ne by simp
    then have "(2::rat) powi (E + 1) \<le> 2 powi float_exponent x" by (rule powi_mono)
    then show False using float_exponent_bounds(1)[OF assms(1)] assms(3) by linarith
  qed
qed

lemma fl_eval:
  assumes "0 < x" "2 powi E \<le> x" "x < 2 powi (E + 1)"
  shows "fl x = of_int (round_half_even (x / 2 powi (E - 52))) * 2 powi (E - 52)"
  using fl_positive_eq[OF assms(1)] float_exponent_unique[OF assms] by simp

lemma powi_numeral_neg: "(2::rat) powi (- numeral n) = inverse (2 ^ numeral n)"
  using powi_neg[of "numeral n"] by simp

lemma powi_numeral_pos: "(2::rat) powi (numeral n) = 2 ^ numeral n"
  using powi_nonneg[of "numeral n"] by simp

lemma fl_half: "fl (1 / 2) = 1 / 2"
  using fl_eval[of "1 / 2" "- 1"] by (simp add: powi_numeral_neg round_half_even_def)

lemma fl_512: "fl 512 = 512"
  using fl_eval[of 512 9] by (simp add: powi_numeral_pos powi_numeral_neg round_half_even_def)

lemma fl_384: "fl 384 = 384"
  using fl_eval[of 384 8] by (simp add: powi_numeral_pos powi_numeral_neg round_half_even_def)

lemma fl_256: "fl 256 = 256"
  using fl_eval[of 256 8] by (simp add: powi_numeral_pos powi_numeral_neg round_half_even_def)

lemma fl_192: "fl 192 = 192"
  using fl_eval[of 192 7] by (simp add: powi_numeral_pos powi_numeral_neg round_half_even_def)

lemma scenario_scale: "min (fl (1 / 2)) (fl (2 / 3)) = 1 / 2"
proof -
  have "fl (1 / 2) \<le> fl (2 / 3)" by (intro fl_mono) simp_all
  then show ?thesis by (simp add: fl_half)
qed

lemma scenario_size: "new_size (512, 384) (256, 256) = Inr (256, 192)"
  by (simp add: new_size_def py_truediv_def scenario_scale py_mul_def py_float_def
      fl_512 fl_384 fl_256 fl_192 round_half_even_def Let_def)

lemma fl_1: "fl 1 = 1"
  using fl_eval[of 1 0] by (simp add: powi_numeral_neg round_half_even_def)

lemma floor_big: "\<lfloor>9007199254740995 / 2 :: rat\<rfloor> = 4503599627370497"
  by (rule floor_unique) simp_all

lemma fl_big: "fl 9007199254740995 = 9007199254740996"
  using fl_eval[of 9007199254740995 53]
  by (simp add: powi_numeral_pos round_half_even_def Let_def floor_big)

lemma fl_big': "fl 9007199254740996 = 9007199254740996"
  using fl_eval[of 9007199254740996 53] by (simp add: powi_numeral_pos round_half_even_def Let_def)

lemma big_size:
  "new_size (1, 1) (9007199254740995, 9007199254740995) = Inr (9007199254740996, 9007199254740996)"
  by (simp add: new_size_def py_truediv_def py_mul_def py_float_def fl_1 fl_big fl_big' round_half_even_def Let_def)


lemma new_size_formula:
  assumes "w \<noteq> 0" "h \<noteq> 0"
  shows "new_size (w, h) (W, H) =
     Inr (max 1 (round_half_even (py_mul w (min (fl (of_int W / of_int w)) (fl (of_int H / of_int h))))),
          max 1 (round_half_even (py_mul h (min (fl (of_int W / of_int w)) (fl (of_int H / of_int h))))))"
  using assms by (simp add: new_size_def py_truediv_def Let_def)

lemma canvas_mode_same: "canvas_mode is_mask m = m"
  by (simp add: canvas_mode_def)

lemma pil_ink_canvas_fill:
  assumes "pil_ink m (canvas_fill is_mask m) = Inr ink"
  shows "(is_mask \<or> pil_bands m \<noteq> Some 4 \<longrightarrow> (\<forall>c \<in> set ink. c = 0))
       \<and> (\<not> is_mask \<and> pil_bands m = Some 4 \<longrightarrow> ink = [0, 0, 0, 255])"
proof (cases "pil_bands m")
  case None
  then show ?thesis using assms by (simp add: pil_ink_def)
next
  case (Some n)
  show ?thesis
  proof (cases "canvas_fill is_mask m")
    case FillInt0
    then have "ink = replicate n 0" using assms Some by (simp add: pil_ink_def)
    moreover have "\<not> (\<not> is_mask \<and> pil_bands m = Some 4)"
      using FillInt0 by (auto simp: canvas_fill_def pil_bands_def split: if_splits)
    ultimately show ?thesis by auto
  next
    case FillTuple000
    then have nm: "\<not> is_mask" by (auto simp: canvas_fill_def split: if_splits)
    have "(n = 3 \<and> ink = [0, 0, 0]) \<or> (n = 4 \<and> ink = [0, 0, 0, 255]) \<or> (n \<noteq> 4 \<and> ink = [0])"
      using assms Some FillTuple000 by (auto simp: pil_ink_def split: if_splits)
    then show ?thesis using nm Some by auto
  qed
qed

text \<open>What a returned canvas looks like.\<close>

lemma resize_keep_aspect_Inr:
  assumes "resize_keep_aspect env rs im (W, H) is_mask = Inr canvas"
    and "new_size (im_size im) (W, H) = Inr (nw, nh)"
  shows "\<exists>ink. pil_ink (im_mode im) (canvas_fill is_mask (im_mode im)) = Inr ink
     \<and> im_size canvas = (W, H)
     \<and> nw < 2 ^ 31 \<and> nh < 2 ^ 31 \<and> W < 2 ^ 31 \<and> H < 2 ^ 31
     \<and> (\<forall>x y. im_pixel canvas x y =
           (if (W - nw) div 2 \<le> x \<and> x < (W - nw) div 2 + nw
               \<and> (H - nh) div 2 \<le> y \<and> y < (H - nh) div 2 + nh
            then Pasted (rs (if is_mask then NEAREST else BILINEAR) im (nw, nh)
                           (x - (W - nw) div 2) (y - (H - nh) div 2))
            else Background ink))"
  using assms
  by (auto simp: resize_keep_aspect_def Let_def pil_new_def pil_paste_def pil_resize_def
      canvas_mode_same split: if_splits sum.splits)

text \<open>When a canvas is returned.\<close>

lemma resize_keep_aspect_returns:
  assumes "new_size (im_size im) (W, H) = Inr (nw, nh)"
    and "1 \<le> nw" "nw < 2 ^ 31" "1 \<le> nh" "nh < 2 ^ 31"
    and "0 \<le> W" "W < 2 ^ 31" "0 \<le> H" "H < 2 ^ 31"
    and "resizes env (im_mode im) (nw, nh) (if is_mask then NEAREST else BILINEAR)"
    and "allocates env (im_mode im) (W, H)"
    and "pil_ink (im_mode im) (canvas_fill is_mask (im_mode im)) = Inr ink"
  shows "\<exists>canvas. resize_keep_aspect env rs im (W, H) is_mask = Inr canvas"
  using assms
  by (simp add: resize_keep_aspect_def Let_def pil_new_def pil_resize_def canvas_mode_same)

text \<open>
  Claim C3, as amended.  For every image of positive size \<open>(w, h)\<close> and every positive
  target \<open>(W, H)\<close> below \<open>2 ^ 31\<close>, when the library can resample the image to the new
  size, can allocate the canvas and accepts the fill for the mode of the image,
  \<open>resize_keep_aspect\<close> returns a canvas of size exactly \<open>(W, H)\<close>.  With \<open>scale\<close> the
  smaller of the float quotients \<open>W / w\<close> and \<open>H / h\<close>, the content has width
  \<open>max 1 (round (w * scale))\<close> and height \<open>max 1 (round (h * scale))\<close>, computed with
  Python's float product and rounding; it is pasted with its left and top edges at
  \<open>(W - new_w) div 2\<close> and \<open>(H - new_h) div 2\<close>, and every pixel outside that region is
  the background ink.  The ink is 0 in every channel for a mask, and for an image
  whose mode does not have four channels; for an image of a mode of four channels
  it is \<open>(0, 0, 0, 255)\<close>.  A 512 by 384 input at target 256 by 256 gets a content of
  256 by 192.
\<close>

theorem resize_keep_aspect_layout:
  assumes "im_size im = (w, h)" "0 < w" "0 < h" "0 < W" "W < 2 ^ 31" "0 < H" "H < 2 ^ 31"
    and "new_size (w, h) (W, H) = Inr (new_w, new_h)"
    and "resizes env (im_mode im) (new_w, new_h) (if is_mask then NEAREST else BILINEAR)"
    and "allocates env (im_mode im) (W, H)"
    and "pil_ink (im_mode im) (canvas_fill is_mask (im_mode im)) = Inr ink"
  shows "\<exists>canvas sw sh.
       resize_keep_aspect env rs im (W, H) is_mask = Inr canvas
     \<and> im_size canvas = (W, H)
     \<and> py_truediv W w = Inr sw \<and> py_truediv H h = Inr sh
     \<and> new_w = max 1 (round_half_even (py_mul w (min sw sh)))
     \<and> new_h = max 1 (round_half_even (py_mul h (min sw sh)))
     \<and> (\<forall>x y. (W - new_w) div 2 \<le> x \<and> x < (W - new_w) div 2 + new_w
               \<and> (H - new_h) div 2 \<le> y \<and> y < (H - new_h) div 2 + new_h \<longrightarrow>
             im_pixel canvas x y =
               Pasted (rs (if is_mask then NEAREST else BILINEAR) im (new_w, new_h)
                         (x - (W - new_w) div 2) (y - (H - new_h) div 2)))
     \<and> (\<forall>x y. \<not> ((W - new_w) div 2 \<le> x \<and> x < (W - new_w) div 2 + new_w
               \<and> (H - new_h) div 2 \<le> y \<and> y < (H - new_h) div 2 + new_h) \<longrightarrow>
             im_pixel canvas x y = Background ink)
     \<and> (is_mask \<or> pil_bands (im_mode im) \<noteq> Some 4 \<longrightarrow> (\<forall>c \<in> set ink. c = 0))
     \<and> (\<not> is_mask \<and> pil_bands (im_mode im) = Some 4 \<longrightarrow> ink = [0, 0, 0, 255])
     \<and> new_size (512, 384) (256, 256) = Inr (256, 192)"
proof -
  define sw where "sw = fl (of_int W / of_int w)"
  define sh where "sh = fl (of_int H / of_int h)"
  have W50: "W \<le> 2 ^ 50" and H50: "H \<le> 2 ^ 50" using assms(5,7) by simp_all
  from new_size_within[OF assms(2,3) assms(4) W50 assms(6) H50] assms(8)
  have b: "1 \<le> new_w" "new_w \<le> W" "1 \<le> new_h" "new_h \<le> H" by simp_all
  then have b31: "new_w < 2 ^ 31" "new_h < 2 ^ 31" using assms(5,7) by linarith+
  have nf: "new_w = max 1 (round_half_even (py_mul w (min sw sh)))"
    "new_h = max 1 (round_half_even (py_mul h (min sw sh)))"
    using assms(2,3,8) new_size_formula[of w h W H] by (simp_all add: sw_def sh_def)
  have ns: "new_size (im_size im) (W, H) = Inr (new_w, new_h)" using assms(1,8) by simp
  have W0: "0 \<le> W" and H0: "0 \<le> H" using assms by simp_all
  from resize_keep_aspect_returns[OF ns b(1) b31(1) b(3) b31(2) W0 assms(5) H0 assms(7)
      assms(9,10,11), of rs]
  obtain canvas where c: "resize_keep_aspect env rs im (W, H) is_mask = Inr canvas"
    by blast
  from resize_keep_aspect_Inr[OF c ns] assms(11)
  have sz: "im_size canvas = (W, H)"
    and px: "\<And>x y. im_pixel canvas x y =
           (if (W - new_w) div 2 \<le> x \<and> x < (W - new_w) div 2 + new_w
               \<and> (H - new_h) div 2 \<le> y \<and> y < (H - new_h) div 2 + new_h
            then Pasted (rs (if is_mask then NEAREST else BILINEAR) im (new_w, new_h)
                           (x - (W - new_w) div 2) (y - (H - new_h) div 2))
            else Background ink)"
    by auto
  have t: "py_truediv W w = Inr sw" "py_truediv H h = Inr sh"
    using assms by (simp_all add: py_truediv_def sw_def sh_def)
  note ink = pil_ink_canvas_fill[OF assms(11)]
  have in_box: "\<forall>x y. (W - new_w) div 2 \<le> x \<and> x < (W - new_w) div 2 + new_w
               \<and> (H - new_h) div 2 \<le> y \<and> y < (H - new_h) div 2 + new_h \<longrightarrow>
             im_pixel canvas x y =
               Pasted (rs (if is_mask then NEAREST else BILINEAR) im (new_w, new_h)
                         (x - (W - new_w) div 2) (y - (H - new_h) div 2))"
    by (simp add: px)
  have out_box: "\<forall>x y. \<not> ((W - new_w) div 2 \<le> x \<and> x < (W - new_w) div 2 + new_w
               \<and> (H - new_h) div 2 \<le> y \<and> y < (H - new_h) div 2 + new_h) \<longrightarrow>
             im_pixel canvas x y = Background ink"
    by (simp add: px)
  have "resize_keep_aspect env rs im (W, H) is_mask = Inr canvas
     \<and> im_size canvas = (W, H)
     \<and> py_truediv W w = Inr sw \<and> py_truediv H h = Inr sh
     \<and> new_w = max 1 (round_half_even (py_mul w (min sw sh)))
     \<and> new_h = max 1 (round_half_even (py_mul h (min sw sh)))
     \<and> (\<forall>x y. (W - new_w) div 2 \<le> x \<and> x < (W - new_w) div 2 + new_w
               \<and> (H - new_h) div 2 \<le> y \<and> y < (H - new_h) div 2 + new_h \<longrightarrow>
             im_pixel canvas x y =
               Pasted (rs (if is_mask then NEAREST else BILINEAR) im (new_w, new_h)
                         (x - (W - new_w) div 2) (y - (H - new_h) div 2)))
     \<and> (\<forall>x y. \<not> ((W - new_w) div 2 \<le> x \<and> x < (W - new_w) div 2 + new_w
               \<and> (H - new_h) div 2 \<le> y \<and> y < (H - new_h) div 2 + new_h) \<longrightarrow>
             im_pixel canvas x y = Background ink)
     \<and> (is_mask \<or> pil_bands (im_mode im) \<noteq> Some 4 \<longrightarrow> (\<forall>c \<in> set ink. c = 0))
     \<and> (\<not> is_mask \<and> pil_bands (im_mode im) = Some 4 \<longrightarrow> ink = [0, 0, 0, 255])
     \<and> new_size (512, 384) (256, 256) = Inr (256, 192)"
    using c sz t nf in_box out_box ink scenario_size by (intro conjI) blast+
  then show ?thesis by (intro exI)
qed

lemma photo_size: "im_size photo_512_384 = (512, 384)"
  by (simp add: photo_512_384_def)

lemma photo_ink: "pil_ink (im_mode photo_512_384) (canvas_fill False (im_mode photo_512_384)) = Inr [0, 0, 0]"
  by (simp add: photo_512_384_def canvas_fill_def pil_ink_def pil_bands_def)

theorem resize_keep_aspect_layout_witness:
  "\<exists>canvas. resize_keep_aspect roomy_env coordinate_resampler photo_512_384 (256, 256) False
        = Inr canvas
      \<and> im_size canvas = (256, 256)
      \<and> im_pixel canvas 0 31 = Background [0, 0, 0]
      \<and> im_pixel canvas 0 32 = Pasted (0, 0)
      \<and> im_pixel canvas 255 223 = Pasted (255, 191)
      \<and> im_pixel canvas 255 224 = Background [0, 0, 0]"
proof -
  have p: "(0::int) < 512" "(0::int) < 384" "(0::int) < 256" "(256::int) < 2 ^ 31" by simp_all
  have r: "resizes roomy_env (im_mode photo_512_384) (256, 192) (if False then NEAREST else BILINEAR)"
    and a: "allocates roomy_env (im_mode photo_512_384) (256, 256)"
    by (simp_all add: roomy_env_def)
  from resize_keep_aspect_layout[OF photo_size p(1) p(2) p(3) p(4) p(3) p(4) scenario_size r a photo_ink,
      of coordinate_resampler]
  obtain canvas where
    c: "resize_keep_aspect roomy_env coordinate_resampler photo_512_384 (256, 256) False = Inr canvas"
      "im_size canvas = (256, 256)"
    and i: "\<forall>x y. (256 - 256) div 2 \<le> x \<and> x < (256 - 256) div 2 + 256
               \<and> (256 - 192) div 2 \<le> y \<and> y < (256 - 192) div 2 + 192 \<longrightarrow>
             im_pixel canvas x y =
               Pasted (coordinate_resampler (if False then NEAREST else BILINEAR) photo_512_384 (256, 192)
                         (x - (256 - 256) div 2) (y - (256 - 192) div 2))"
    and o: "\<forall>x y. \<not> ((256 - 256) div 2 \<le> x \<and> x < (256 - 256) div 2 + 256
               \<and> (256 - 192) div 2 \<le> y \<and> y < (256 - 192) div 2 + 192) \<longrightarrow>
             im_pixel canvas x y = Background [0, 0, 0]"
    by blast
  have "im_pixel canvas 0 31 = Background [0, 0, 0]" using o by simp
  moreover have "im_pixel canvas 255 224 = Background [0, 0, 0]" using o by simp
  moreover have "im_pixel canvas 0 32 = Pasted (0, 0)"
    using i by (simp add: coordinate_resampler_def)
  moreover have "im_pixel canvas 255 223 = Pasted (255, 191)"
    using i by (simp add: coordinate_resampler_def)
  ultimately show ?thesis using c by blast
qed

lemma fl_2: "fl 2 = 2"
  using fl_eval[of 2 1] by (simp add: powi_numeral_pos powi_numeral_neg round_half_even_def)

lemma rgba_new_size: "new_size (2, 1) (2, 2) = Inr (2, 1)"
  by (simp add: new_size_def py_truediv_def py_mul_def py_float_def fl_1 fl_2
      round_half_even_def Let_def)

text \<open>
  The claim as stated fails for a photograph with an alpha channel: the padding of
  a 2 by 1 image of mode \<open>RGBA\<close>, resized as an image to 2 by 2, is \<open>(0, 0, 0, 255)\<close>.
\<close>

theorem resize_keep_aspect_layout_counterexample:
  "(case resize_keep_aspect roomy_env coordinate_resampler rgba_2_1 (2, 2) False of
      Inl e \<Rightarrow> False
    | Inr canvas \<Rightarrow>
        im_size canvas = (2, 2)
        \<and> im_pixel canvas 0 0 = Pasted (0, 0)
        \<and> im_pixel canvas 0 1 = Background [0, 0, 0, 255])"
  by (simp add: resize_keep_aspect_def rgba_2_1_def rgba_new_size roomy_env_def
      pil_resize_def pil_new_def pil_paste_def pil_ink_def pil_bands_def canvas_mode_def
      canvas_fill_def coordinate_resampler_def Let_def)

text \<open>
  Claim C10, as amended.  For every image of positive size and every target with
  \<open>1 \<le> W \<le> 2 ^ 50\<close> and \<open>1 \<le> H \<le> 2 ^ 50\<close>, the new size satisfies \<open>new_w \<le> W\<close> and
  \<open>new_h \<le> H\<close>, both paste offsets are non-negative and the pasted region ends within
  the target; and whenever \<open>resize_keep_aspect\<close> returns a canvas, every pasted pixel
  of it lies inside the canvas.
\<close>

theorem content_within_canvas:
  assumes "im_size im = (w, h)" "0 < w" "0 < h" "1 \<le> W" "W \<le> 2 ^ 50" "1 \<le> H" "H \<le> 2 ^ 50"
  shows "\<exists>new_w new_h.
       new_size (w, h) (W, H) = Inr (new_w, new_h)
     \<and> new_w \<le> W \<and> new_h \<le> H
     \<and> 0 \<le> (W - new_w) div 2 \<and> 0 \<le> (H - new_h) div 2
     \<and> (W - new_w) div 2 + new_w \<le> W \<and> (H - new_h) div 2 + new_h \<le> H
     \<and> (\<forall>canvas. resize_keep_aspect env rs im (W, H) is_mask = Inr canvas \<longrightarrow>
           (\<forall>x y v. im_pixel canvas x y = Pasted v \<longrightarrow> 0 \<le> x \<and> x < W \<and> 0 \<le> y \<and> y < H))"
proof -
  have Wp: "0 < W" and Hp: "0 < H" using assms by simp_all
  from new_size_within[OF assms(2,3) Wp assms(5) Hp assms(7)]
  obtain nw nh where n: "new_size (w, h) (W, H) = Inr (nw, nh)"
    and b: "1 \<le> nw" "nw \<le> W" "1 \<le> nh" "nh \<le> H"
    by blast
  have n': "new_size (im_size im) (W, H) = Inr (nw, nh)" using n assms(1) by simp
  have o: "0 \<le> (W - nw) div 2" "0 \<le> (H - nh) div 2"
    "(W - nw) div 2 + nw \<le> W" "(H - nh) div 2 + nh \<le> H"
    using b by linarith+
  have inside: "\<forall>canvas. resize_keep_aspect env rs im (W, H) is_mask = Inr canvas \<longrightarrow>
           (\<forall>x y v. im_pixel canvas x y = Pasted v \<longrightarrow> 0 \<le> x \<and> x < W \<and> 0 \<le> y \<and> y < H)"
  proof (intro allI impI)
    fix canvas x y v
    assume c: "resize_keep_aspect env rs im (W, H) is_mask = Inr canvas"
      and p: "im_pixel canvas x y = Pasted v"
    from resize_keep_aspect_Inr[OF c n'] obtain ink where
      px: "\<And>x y. im_pixel canvas x y =
           (if (W - nw) div 2 \<le> x \<and> x < (W - nw) div 2 + nw
               \<and> (H - nh) div 2 \<le> y \<and> y < (H - nh) div 2 + nh
            then Pasted (rs (if is_mask then NEAREST else BILINEAR) im (nw, nh)
                           (x - (W - nw) div 2) (y - (H - nh) div 2))
            else Background ink)"
      by blast
    have "(W - nw) div 2 \<le> x \<and> x < (W - nw) div 2 + nw
               \<and> (H - nh) div 2 \<le> y \<and> y < (H - nh) div 2 + nh"
      using p unfolding px by (simp split: if_splits)
    then show "0 \<le> x \<and> x < W \<and> 0 \<le> y \<and> y < H" using o by linarith
  qed
  have "new_size (w, h) (W, H) = Inr (nw, nh)
     \<and> nw \<le> W \<and> nh \<le> H
     \<and> 0 \<le> (W - nw) div 2 \<and> 0 \<le> (H - nh) div 2
     \<and> (W - nw) div 2 + nw \<le> W \<and> (H - nh) div 2 + nh \<le> H
     \<and> (\<forall>canvas. resize_keep_aspect env rs im (W, H) is_mask = Inr canvas \<longrightarrow>
           (\<forall>x y v. im_pixel canvas x y = Pasted v \<longrightarrow> 0 \<le> x \<and> x < W \<and> 0 \<le> y \<and> y < H))"
    using n b o inside by (intro conjI)
  then show ?thesis by (intro exI)
qed

text \<open>
  Without a bound on the target the computed size can exceed it: the target
  \<open>2 ^ 53 + 3\<close> is not a float, the quotient by the width 1 rounds up to \<open>2 ^ 53 + 4\<close>,
  and so the new width computed for a 1 by 1 image exceeds the target width.  (The
  library then refuses the size, and no canvas is returned.)
\<close>

theorem content_within_canvas_counterexample:
  "new_size (im_size dot_1_1) (9007199254740995, 9007199254740995)
     = Inr (9007199254740996, 9007199254740996)
   \<and> \<not> (9007199254740996 :: int) \<le> 9007199254740995
   \<and> resize_keep_aspect roomy_env coordinate_resampler dot_1_1
        (9007199254740995, 9007199254740995) False = Inl OverflowError"
  by (simp add: resize_keep_aspect_def dot_1_1_def big_size pil_resize_def Let_def)

lemma mask_size: "im_size mask_512_384 = (512, 384)"
  by (simp add: mask_512_384_def)

lemma mask_canvas:
  "\<exists>canvas. resize_keep_aspect roomy_env coordinate_resampler mask_512_384 (256, 256) True = Inr canvas"
proof -
  have ns: "new_size (im_size mask_512_384) (256, 256) = Inr (256, 192)"
    using scenario_size by (simp add: mask_size)
  show ?thesis
    by (rule resize_keep_aspect_returns[OF ns, where ink = "[0]"])
      (simp_all add: roomy_env_def mask_512_384_def canvas_fill_def pil_ink_def pil_bands_def)
qed

theorem content_within_canvas_witness:
  "\<exists>canvas. new_size (512, 384) (256, 256) = Inr (256, 192)
     \<and> resize_keep_aspect roomy_env coordinate_resampler mask_512_384 (256, 256) True = Inr canvas
     \<and> im_pixel canvas 0 32 = Pasted (0, 0)
     \<and> im_pixel canvas 0 31 = Background [0]
     \<and> im_pixel canvas 255 223 = Pasted (255, 191)
     \<and> im_pixel canvas 255 224 = Background [0]"
proof -
  obtain canvas where
    c: "resize_keep_aspect roomy_env coordinate_resampler mask_512_384 (256, 256) True = Inr canvas"
    using mask_canvas by blast
  have p: "(0::int) < 512" "(0::int) < 384" "(1::int) \<le> 256" "(256::int) \<le> 2 ^ 50" by simp_all
  from content_within_canvas[OF mask_size p(1) p(2) p(3) p(4) p(3) p(4),
      of roomy_env coordinate_resampler True] c
  have inside: "\<forall>x y v. im_pixel canvas x y = Pasted v \<longrightarrow> 0 \<le> x \<and> x < 256 \<and> 0 \<le> y \<and> y < 256"
    by blast
  have ns: "new_size (im_size mask_512_384) (256, 256) = Inr (256, 192)"
    using scenario_size by (simp add: mask_size)
  from resize_keep_aspect_Inr[OF c ns] obtain ink where
    k: "pil_ink (im_mode mask_512_384) (canvas_fill True (im_mode mask_512_384)) = Inr ink"
    and px: "\<And>x y. im_pixel canvas x y =
           (if (256 - 256) div 2 \<le> x \<and> x < (256 - 256) div 2 + 256
               \<and> (256 - 192) div 2 \<le> y \<and> y < (256 - 192) div 2 + 192
            then Pasted (coordinate_resampler (if True then NEAREST else BILINEAR) mask_512_384 (256, 192)
                           (x - (256 - 256) div 2) (y - (256 - 192) div 2))
            else Background ink)"
    by blast
  have ink: "ink = [0]"
    using k by (simp add: mask_512_384_def canvas_fill_def pil_ink_def pil_bands_def)
  have "im_pixel canvas 0 32 = Pasted (0, 0)"
    unfolding px by (simp add: coordinate_resampler_def)
  moreover have "im_pixel canvas 0 31 = Background [0]"
    unfolding px by (simp add: ink)
  moreover have "im_pixel canvas 255 223 = Pasted (255, 191)"
    unfolding px by (simp add: coordinate_resampler_def)
  moreover have "im_pixel canvas 255 224 = Background [0]"
    unfolding px by (simp add: ink)
  ultimately show ?thesis using c scenario_size inside by blast
qed

end
